theory Spec2Isabelle
  imports Main "HOL-Library.Sublist" "HOL-Library.Char_ord" "HOL-Library.List_Lexorder"
    "HOL-Library.Multiset"
begin

section \<open>httptrack: tracking values carried from an inbound to the outbound requests\<close>

text \<open>
  A shallow embedding of \<^verbatim>\<open>httptrack.go\<close>. The package reads values from an inbound
  \<^verbatim>\<open>http.Request\<close> (\<^verbatim>\<open>Handler\<close>), stores them in the request's context, and writes
  them onto outbound requests (\<^verbatim>\<open>AddContextData\<close>, \<^verbatim>\<open>NewRequestWithContext\<close>).

  The types and operations of \<^verbatim>\<open>net/http\<close>, \<^verbatim>\<open>net/url\<close>, \<^verbatim>\<open>context\<close> and \<^verbatim>\<open>errors\<close>
  that the package calls are not part of the repository; they are modelled from the
  standard library:
  \<^item> \<^verbatim>\<open>http.Header\<close> is \<^verbatim>\<open>map[string][]string\<close> and may be the nil map: an optional
    function from a key to the list of its values, the empty list for a key that is not
    in the map. Reading the nil map gives no value; writing to it panics.
  \<^item> The cookies of a request are the text of its \<^verbatim>\<open>Cookie\<close> header lines, read by
    \<^verbatim>\<open>Request.Cookie\<close> and rewritten by \<^verbatim>\<open>Request.AddCookie\<close>.
  \<^item> \<^verbatim>\<open>RawQuery\<close> is the list of the segments that \<^verbatim>\<open>&\<close> separates, each one either a
    pair that \<^verbatim>\<open>URL.Query()\<close> can parse, given by its decoded key and value, or one that
    it cannot parse and drops. Percent-encoding itself is not modelled. \<^verbatim>\<open>url.Values\<close> is
    the list of its (key, value) entries, the values of one key in their order; the order
    between different keys has no meaning and no operation here reads it.
  \<^item> A context is the chain of \<^verbatim>\<open>context.WithValue\<close> calls that built it.
  \<^item> A call either returns or panics.
\<close>

subsection \<open>Locations, rules and the carried values\<close>

definition LocationHeader :: int where
  "LocationHeader = 1"

definition LocationCookie :: int where
  "LocationCookie = 2"

definition LocationQueryParam :: int where
  "LocationQueryParam = 3"

text \<open>\<^verbatim>\<open>ctxValue\<close>: the name and value to set on an outbound request, and where.\<close>

record ctxValue =
  location :: int
  name :: string
  "value" :: string

text \<open>
  Keys and values of a context. \<^verbatim>\<open>ctxDataName\<close> is the package's private key type; a key
  of any other type is an \<open>otherKey\<close>. The value stored by the package is a \<^verbatim>\<open>ctxData\<close>
  struct, whose only field is the slice \<^verbatim>\<open>values\<close>; a value of any other type is an
  \<open>otherVal\<close>.
\<close>

datatype ctxKey = ctxDataName string | otherKey string

datatype ctxVal = ctxData "ctxValue list" | otherVal string

datatype Context = Background | WithValue Context ctxKey ctxVal

text \<open>
  \<^verbatim>\<open>ctx.Value(key)\<close>: the value of the innermost \<^verbatim>\<open>WithValue\<close> with an equal key,
  \<^verbatim>\<open>nil\<close> (here \<open>None\<close>) when there is none.
\<close>

fun Context_Value :: "Context \<Rightarrow> ctxKey \<Rightarrow> ctxVal option" where
  "Context_Value Background k = None"
| "Context_Value (WithValue parent k' v) k = (if k' = k then Some v else Context_Value parent k)"

datatype segment = Pair string string | Unparsable string

record URL =
  Path :: string
  RawQuery :: "segment list"

text \<open>
  The fields of \<^verbatim>\<open>http.Request\<close> that the package reads or writes, with \<^verbatim>\<open>Method\<close> and
  \<^verbatim>\<open>RemoteAddr\<close> standing for what else a \<^verbatim>\<open>MissingFunc\<close> can read from its copy of
  the request. \<^verbatim>\<open>URL\<close> is a pointer and \<^verbatim>\<open>Header\<close> a map: either may be nil.
\<close>

record Request =
  Method :: string
  URL :: "URL option"
  Header :: "(string \<Rightarrow> string list) option"
  RemoteAddr :: string
  ctx :: Context

text \<open>
  A rule (\<^verbatim>\<open>Value\<close> in the source). \<^verbatim>\<open>MissingFunc\<close> is a Go function: it may read and
  change state of its own (the source suggests generating a random tracking ID), so it
  takes and returns a state of type \<open>'w\<close>. It is given the outbound name and \<^verbatim>\<open>*r\<close>, a copy
  of the request struct. The copy has the request's \<^verbatim>\<open>Header\<close> map and \<^verbatim>\<open>URL\<close> pointer, so
  what the function writes through them is written to the request that the handler goes
  on reading: besides its string and its state, the function returns the contents in
  which it leaves that map and that URL. It cannot make a nil map or a nil pointer of
  the request non-nil, nor change any other field of it. \<open>None\<close> is the nil function.
\<close>

record 'w Value =
  InboundLocation :: int
  InboundName :: string
  OutboundLocation :: int
  OutboundName :: string
  MissingFunc ::
    "(string \<Rightarrow> Request \<Rightarrow> 'w \<Rightarrow> string \<times> (string \<Rightarrow> string list) \<times> URL \<times> 'w) option"

datatype Options = Options

datatype error = ErrMissingContext | errors_New string | ErrNoCookie

datatype 'a outcome = Panic | Return 'a

text \<open>
  \<^verbatim>\<open>errors.Is(err, target)\<close>: none of the errors here wraps another, so it is equality.
\<close>

definition errors_Is :: "error \<Rightarrow> error \<Rightarrow> bool" where
  "errors_Is err target = (err = target)"

subsection \<open>Headers\<close>

text \<open>
  The token bytes of a header field name, which are those of a cookie name as well.
\<close>

definition lowerLetters :: string where
  "lowerLetters = ''abcdefghijklmnopqrstuvwxyz''"

definition upperLetters :: string where
  "upperLetters = ''ABCDEFGHIJKLMNOPQRSTUVWXYZ''"

definition isToken :: "char \<Rightarrow> bool" where
  "isToken c =
     (c \<in> set (lowerLetters @ upperLetters @ ''0123456789!#$%&*+-.^_|~'' @ [CHR 0x27, CHR 0x60]))"

definition toUpper :: "char \<Rightarrow> char" where
  "toUpper c = (case map_of (zip lowerLetters upperLetters) c of Some u \<Rightarrow> u | None \<Rightarrow> c)"

definition toLower :: "char \<Rightarrow> char" where
  "toLower c = (case map_of (zip upperLetters lowerLetters) c of Some l \<Rightarrow> l | None \<Rightarrow> c)"

text \<open>
  \<^verbatim>\<open>textproto.CanonicalMIMEHeaderKey\<close>: a key made of token bytes only gets its first
  letter and every letter after a hyphen in upper case and the other letters in lower
  case; any other key is returned as it is.
\<close>

fun canonicalize :: "bool \<Rightarrow> string \<Rightarrow> string" where
  "canonicalize upper [] = []"
| "canonicalize upper (c # cs) =
     (let c' = (if upper then toUpper c else toLower c)
      in c' # canonicalize (c' = CHR ''-'') cs)"

definition CanonicalHeaderKey :: "string \<Rightarrow> string" where
  "CanonicalHeaderKey s = (if list_all isToken s then canonicalize True s else s)"

text \<open>
  \<^verbatim>\<open>Header.Get(key)\<close>: the first value of the canonical key, or the empty string; the
  nil map has no value.
\<close>

definition Header_Get :: "(string \<Rightarrow> string list) option \<Rightarrow> string \<Rightarrow> string" where
  "Header_Get h key =
     (case h of
        None \<Rightarrow> ''''
      | Some m \<Rightarrow> (case m (CanonicalHeaderKey key) of [] \<Rightarrow> '''' | v # _ \<Rightarrow> v))"

text \<open>
  \<^verbatim>\<open>Header.Add(key, value)\<close> appends to the values of the canonical key and
  \<^verbatim>\<open>Header.Set(key, value)\<close> replaces them by the one value. Both assign to an entry of
  the map, which panics when the map is nil. The result is the map after the call.
\<close>

definition Header_Add ::
  "(string \<Rightarrow> string list) option \<Rightarrow> string \<Rightarrow> string \<Rightarrow> (string \<Rightarrow> string list) outcome" where
  "Header_Add h key v =
     (case h of
        None \<Rightarrow> Panic
      | Some m \<Rightarrow> Return (m(CanonicalHeaderKey key := m (CanonicalHeaderKey key) @ [v])))"

definition Header_Set ::
  "(string \<Rightarrow> string list) option \<Rightarrow> string \<Rightarrow> string \<Rightarrow> (string \<Rightarrow> string list) outcome" where
  "Header_Set h key v =
     (case h of
        None \<Rightarrow> Panic
      | Some m \<Rightarrow> Return (m(CanonicalHeaderKey key := [v])))"

subsection \<open>Cookies\<close>

text \<open>
  \<^verbatim>\<open>textproto.TrimString\<close> removes leading and trailing space, tab, newline and carriage
  return. \<^verbatim>\<open>strings.Cut(s, sep)\<close> gives the text before and after the first separator,
  or the whole text and the empty one when there is none. \<open>splitOn\<close> gives the texts
  between the separators.
\<close>

definition isASCIISpace :: "char \<Rightarrow> bool" where
  "isASCIISpace c = (c = CHR '' '' \<or> c = CHR 0x09 \<or> c = CHR 0x0A \<or> c = CHR 0x0D)"

definition TrimString :: "string \<Rightarrow> string" where
  "TrimString s = rev (dropWhile isASCIISpace (rev (dropWhile isASCIISpace s)))"

definition Cut :: "string \<Rightarrow> char \<Rightarrow> string \<times> string" where
  "Cut s sep = (takeWhile (\<lambda>c. c \<noteq> sep) s, drop 1 (dropWhile (\<lambda>c. c \<noteq> sep) s))"

fun splitOn :: "char \<Rightarrow> string \<Rightarrow> string list" where
  "splitOn sep [] = [[]]"
| "splitOn sep (c # cs) =
     (if c = sep then [] # splitOn sep cs
      else (case splitOn sep cs of
              [] \<Rightarrow> [[c]]
            | p # ps \<Rightarrow> (c # p) # ps))"

text \<open>
  The bytes that a cookie value may hold: the printable ASCII bytes other than the double
  quote, the semicolon and the backslash.
\<close>

definition validCookieValueByte :: "char \<Rightarrow> bool" where
  "validCookieValueByte b =
     (0x20 \<le> (of_char b :: nat) \<and> (of_char b :: nat) < 0x7f \<and>
      b \<noteq> CHR 0x22 \<and> b \<noteq> CHR '';'' \<and> b \<noteq> CHR 0x5C)"

definition isCookieNameValid :: "string \<Rightarrow> bool" where
  "isCookieNameValid raw = (raw \<noteq> '''' \<and> list_all isToken raw)"

text \<open>
  \<^verbatim>\<open>parseCookieValue(raw, true)\<close>: the value without its surrounding double quotes, if it
  has them, or nothing when a byte of it is not valid.
\<close>

definition parseCookieValue :: "string \<Rightarrow> string option" where
  "parseCookieValue raw =
     (let raw = (if length raw > 1 \<and> hd raw = CHR 0x22 \<and> last raw = CHR 0x22
                 then butlast (tl raw) else raw)
      in if list_all validCookieValueByte raw then Some raw else None)"

text \<open>
  \<^verbatim>\<open>readCookies(h, filter)\<close>: every line of \<^verbatim>\<open>h["Cookie"]\<close> is trimmed and cut at the
  semicolons; a part is skipped when it is empty after trimming, when its name is not a
  valid cookie name, when the filter \<open>flt\<close> is not empty and is not its name, or when its value
  does not parse. The loop of the source cuts one part off the line at a time until the
  line is empty; the parts are those of \<open>splitOn\<close>, up to empty ones, which are skipped.
\<close>

definition readCookie :: "string \<Rightarrow> string \<Rightarrow> (string \<times> string) option" where
  "readCookie flt part =
     (let part = TrimString part
      in if part = '''' then None
         else (let (n, val) = Cut part (CHR ''='');
                   n = TrimString n
               in if \<not> isCookieNameValid n then None
                  else if flt \<noteq> '''' \<and> flt \<noteq> n then None
                  else (case parseCookieValue val of
                          None \<Rightarrow> None
                        | Some v \<Rightarrow> Some (n, v))))"

definition readCookies :: "(string \<Rightarrow> string list) option \<Rightarrow> string \<Rightarrow> (string \<times> string) list" where
  "readCookies h flt =
     (case h of
        None \<Rightarrow> []
      | Some m \<Rightarrow>
          List.map_filter (readCookie flt)
            (concat (map (\<lambda>line. splitOn (CHR '';'') (TrimString line)) (m ''Cookie''))))"

text \<open>
  \<^verbatim>\<open>Request.Cookie(name)\<close>: the first cookie of that name, as its name and value, or
  \<^verbatim>\<open>ErrNoCookie\<close> when there is none or the name is empty.
\<close>

definition Cookie :: "Request \<Rightarrow> string \<Rightarrow> error + (string \<times> string)" where
  "Cookie r n =
     (if n = '''' then Inl ErrNoCookie
      else (case readCookies (Header r) n of
              [] \<Rightarrow> Inl ErrNoCookie
            | c # _ \<Rightarrow> Inr c))"

text \<open>
  \<^verbatim>\<open>sanitizeCookieName\<close> replaces newline and carriage return by a hyphen.
  \<^verbatim>\<open>sanitizeCookieValue\<close> drops the bytes that are not valid and puts what is left in
  double quotes when it holds a space or a comma.
\<close>

definition sanitizeCookieName :: "string \<Rightarrow> string" where
  "sanitizeCookieName n = map (\<lambda>c. if c = CHR 0x0A \<or> c = CHR 0x0D then CHR ''-'' else c) n"

definition sanitizeCookieValue :: "string \<Rightarrow> string" where
  "sanitizeCookieValue v =
     (let v = filter validCookieValueByte v
      in if v = '''' then v
         else if CHR '' '' \<in> set v \<or> CHR '','' \<in> set v then [CHR 0x22] @ v @ [CHR 0x22]
         else v)"

text \<open>
  \<^verbatim>\<open>Request.AddCookie(c)\<close>, for a cookie with a name and a value only: the \<^verbatim>\<open>Cookie\<close>
  header is set to one line, which is what \<^verbatim>\<open>Header.Get("Cookie")\<close> gives, when that is
  not empty, followed by a semicolon, a space and the sanitised \<^verbatim>\<open>name=value\<close>, and
  otherwise the sanitised \<^verbatim>\<open>name=value\<close> alone.
\<close>

definition AddCookie :: "Request \<Rightarrow> string \<times> string \<Rightarrow> Request outcome" where
  "AddCookie r c =
     (let s = sanitizeCookieName (fst c) @ ''='' @ sanitizeCookieValue (snd c);
          old = Header_Get (Header r) ''Cookie''
      in case (if old \<noteq> '''' then Header_Set (Header r) ''Cookie'' (old @ ''; '' @ s)
               else Header_Set (Header r) ''Cookie'' s) of
           Panic \<Rightarrow> Panic
         | Return m \<Rightarrow> Return (r\<lparr>Header := Some m\<rparr>))"

subsection \<open>Query values\<close>

text \<open>
  \<^verbatim>\<open>URL.Query()\<close> parses \<^verbatim>\<open>RawQuery\<close> and drops what it cannot parse. \<^verbatim>\<open>Values.Get(key)\<close>
  is the first value of the key, or the empty string. \<^verbatim>\<open>Values.Add(key, value)\<close> appends
  to the values of the key. \<^verbatim>\<open>Values.Encode()\<close> writes the pairs sorted by key, the values
  of one key in their order.
\<close>

definition URL_Query :: "URL \<Rightarrow> (string \<times> string) list" where
  "URL_Query u =
     List.map_filter (\<lambda>s. case s of Pair k v \<Rightarrow> Some (k, v) | Unparsable t \<Rightarrow> None) (RawQuery u)"

definition Values_Get :: "(string \<times> string) list \<Rightarrow> string \<Rightarrow> string" where
  "Values_Get q key = (case filter (\<lambda>p. fst p = key) q of [] \<Rightarrow> '''' | p # _ \<Rightarrow> snd p)"

definition Values_Add :: "(string \<times> string) list \<Rightarrow> string \<Rightarrow> string \<Rightarrow> (string \<times> string) list" where
  "Values_Add q key v = q @ [(key, v)]"

definition Values_Encode :: "(string \<times> string) list \<Rightarrow> segment list" where
  "Values_Encode q = map (\<lambda>p. Pair (fst p) (snd p)) (sort_key fst q)"

subsection \<open>Handler\<close>

text \<open>
  Lines 93 to 111: the \<^verbatim>\<open>switch\<close> on \<^verbatim>\<open>v.InboundLocation\<close>, which leaves the inbound
  value in \<^verbatim>\<open>outboundValue\<close>, or the empty string when the field is absent, is empty,
  or the location is none of the three. \<^verbatim>\<open>h\<close> of line 90 is the request's \<^verbatim>\<open>Header\<close> map.
\<close>

definition inboundValue :: "Request \<Rightarrow> 'w Value \<Rightarrow> string" where
  "inboundValue r v =
     (if InboundLocation v = LocationHeader then
        (let val = Header_Get (Header r) (InboundName v)
         in if val \<noteq> '''' then val else '''')
      else if InboundLocation v = LocationCookie then
        (case Cookie r (InboundName v) of
           Inr cookie \<Rightarrow> if snd cookie \<noteq> '''' then snd cookie else ''''
         | Inl err \<Rightarrow> '''')
      else if InboundLocation v = LocationQueryParam then
        (case URL r of
           None \<Rightarrow> ''''
         | Some u \<Rightarrow>
             (let val = Values_Get (URL_Query u) (InboundName v)
              in if val \<noteq> '''' then val else ''''))
      else '''')"

text \<open>
  The request after a call of \<^verbatim>\<open>MissingFunc\<close> that left the header map and the URL with
  the contents \<open>m\<close> and \<open>u\<close>: a nil map and a nil pointer stay nil.
\<close>

definition afterCall :: "Request \<Rightarrow> (string \<Rightarrow> string list) \<Rightarrow> URL \<Rightarrow> Request" where
  "afterCall r m u =
     r\<lparr>Header := map_option (\<lambda>old. m) (Header r), URL := map_option (\<lambda>old. u) (URL r)\<rparr>"

text \<open>
  Lines 112 to 115: \<^verbatim>\<open>MissingFunc\<close> is called when the inbound value is empty and the
  function is not nil. The result is the value of \<^verbatim>\<open>outboundValue\<close> at line 116, the
  request and the state as the function left them, and whether the function was called.
\<close>

definition resolve :: "Request \<Rightarrow> 'w Value \<Rightarrow> 'w \<Rightarrow> string \<times> Request \<times> 'w \<times> bool" where
  "resolve r v w =
     (let outboundValue = inboundValue r v
      in if outboundValue = '''' then
           (case MissingFunc v of
              Some f \<Rightarrow> (case f (OutboundName v) r w of
                          (s, m, u, w') \<Rightarrow> (s, afterCall r m u, w', True))
            | None \<Rightarrow> (outboundValue, r, w, False))
         else (outboundValue, r, w, False))"

text \<open>
  One iteration of the loop of lines 92 to 124, for the rule at index \<open>i\<close>. The state is
  \<^verbatim>\<open>ctxValues\<close>, the request, the state of the fallback functions, and the indices of the
  rules whose \<^verbatim>\<open>MissingFunc\<close> has been called so far, in the order of the calls.
\<close>

definition Handler_step ::
  "nat \<Rightarrow> 'w Value \<Rightarrow> ctxValue list \<times> Request \<times> 'w \<times> nat list \<Rightarrow>
   ctxValue list \<times> Request \<times> 'w \<times> nat list" where
  "Handler_step i v st =
     (case st of (ctxValues, r, w, calls) \<Rightarrow>
        (case resolve r v w of (outboundValue, r', w', called) \<Rightarrow>
           (if outboundValue \<noteq> '''' then
              ctxValues @ [\<lparr>location = OutboundLocation v, name = OutboundName v,
                            value = outboundValue\<rparr>]
            else ctxValues,
            r',
            w',
            if called then calls @ [i] else calls)))"

fun Handler_range ::
  "nat \<Rightarrow> 'w Value list \<Rightarrow> ctxValue list \<times> Request \<times> 'w \<times> nat list \<Rightarrow>
   ctxValue list \<times> Request \<times> 'w \<times> nat list" where
  "Handler_range i [] st = st"
| "Handler_range i (v # vs) st = Handler_range (Suc i) vs (Handler_step i v st)"

text \<open>Lines 91 to 124: \<^verbatim>\<open>ctxValues\<close> starts as the nil slice.\<close>

definition Handler_bind ::
  "'w Value list \<Rightarrow> Request \<Rightarrow> 'w \<Rightarrow> ctxValue list \<times> Request \<times> 'w \<times> nat list" where
  "Handler_bind vals r w = Handler_range 0 vals ([], r, w, [])"

text \<open>Line 125: the request handed to the next handler.\<close>

definition Handler_request :: "Request \<Rightarrow> ctxValue list \<Rightarrow> Request" where
  "Handler_request r ctxValues =
     r\<lparr>ctx := WithValue (ctx r) (ctxDataName ''httptrack'') (ctxData ctxValues)\<rparr>"

text \<open>
  The handler that \<^verbatim>\<open>Handler(next, options, values)\<close> returns, run on a request. The next
  handler works on the request and the state; the response writer is part of that state.
  The result is the state the next handler left and the calls of \<^verbatim>\<open>MissingFunc\<close> made.
\<close>

definition Handler ::
  "(Request \<Rightarrow> 'w \<Rightarrow> 'w) \<Rightarrow> Options \<Rightarrow> 'w Value list \<Rightarrow> Request \<Rightarrow> 'w \<Rightarrow> 'w \<times> nat list" where
  "Handler next options vals r w =
     (case Handler_bind vals r w of (ctxValues, r', w', calls) \<Rightarrow>
        (next (Handler_request r' ctxValues) w', calls))"

subsection \<open>AddContextData and NewRequestWithContext\<close>

text \<open>
  One iteration of the loop of lines 169 to 186. It panics, or goes on to the end of the
  iteration: then the result is the error returned from inside the loop, if any, and the
  request as the iteration leaves it.
\<close>

definition AddContextData_step :: "ctxValue \<Rightarrow> Request \<Rightarrow> (error option \<times> Request) outcome" where
  "AddContextData_step v req =
     (if location v = LocationHeader then
        (case Header_Add (Header req) (name v) (value v) of
           Panic \<Rightarrow> Panic
         | Return m \<Rightarrow> Return (None, req\<lparr>Header := Some m\<rparr>))
      else if location v = LocationCookie then
        (case AddCookie req (name v, value v) of
           Panic \<Rightarrow> Panic
         | Return req' \<Rightarrow> Return (None, req'))
      else if location v = LocationQueryParam then
        (case URL req of
           None \<Rightarrow> Return (Some (errors_New ''request has no URL set''), req)
         | Some u \<Rightarrow>
             (let q = URL_Query u;
                  q = Values_Add q (name v) (value v)
              in Return (None, req\<lparr>URL := Some (u\<lparr>RawQuery := Values_Encode q\<rparr>)\<rparr>)))
      else Return (None, req))"

fun AddContextData_range :: "ctxValue list \<Rightarrow> Request \<Rightarrow> (error option \<times> Request) outcome" where
  "AddContextData_range [] req = Return (None, req)"
| "AddContextData_range (v # vs) req =
     (case AddContextData_step v req of
        Panic \<Rightarrow> Panic
      | Return (Some err, req') \<Rightarrow> Return (Some err, req')
      | Return (None, req') \<Rightarrow> AddContextData_range vs req')"

text \<open>
  \<^verbatim>\<open>AddContextData(req)\<close> changes the request in place and returns an error or nil, unless
  it panics: the result of a call that returns is that error and the request as the
  call leaves it.
\<close>

definition AddContextData :: "Request \<Rightarrow> (error option \<times> Request) outcome" where
  "AddContextData req =
     (case Context_Value (ctx req) (ctxDataName ''httptrack'') of
        Some (ctxData vals) \<Rightarrow> AddContextData_range vals req
      | _ \<Rightarrow> Return (Some ErrMissingContext, req))"

text \<open>
  \<^verbatim>\<open>NewRequestWithContext\<close>. The constructor \<^verbatim>\<open>http.NewRequestWithContext\<close> of the
  standard library is the parameter \<open>http_New\<close>.
\<close>

definition NewRequestWithContext ::
  "(Context \<Rightarrow> string \<Rightarrow> string \<Rightarrow> 'b \<Rightarrow> error + Request) \<Rightarrow>
   Context \<Rightarrow> string \<Rightarrow> string \<Rightarrow> 'b \<Rightarrow> (error + Request) outcome" where
  "NewRequestWithContext http_New c method url body =
     (case http_New c method url body of
        Inl err \<Rightarrow> Return (Inl err)
      | Inr req \<Rightarrow>
          (case AddContextData req of
             Panic \<Rightarrow> Panic
           | Return (Some err, req') \<Rightarrow>
               if \<not> errors_Is err ErrMissingContext then Return (Inl err) else Return (Inr req')
           | Return (None, req') \<Rightarrow> Return (Inr req')))"

section \<open>Notions used to state the properties\<close>

text \<open>
  The condition of line 113 for a rule, on the request as it is when the loop gets to
  the rule.
\<close>

definition needsFallback :: "Request \<Rightarrow> 'w Value \<Rightarrow> bool" where
  "needsFallback r v = (inboundValue r v = '''' \<and> MissingFunc v \<noteq> None)"

text \<open>
  The request and the state of the fallback functions when the loop gets to the rule at
  index \<open>i\<close>: what the pass over the rules before it leaves.
\<close>

definition stateAt :: "'w Value list \<Rightarrow> Request \<Rightarrow> 'w \<Rightarrow> nat \<Rightarrow> Request \<times> 'w" where
  "stateAt vals r w i =
     (fst (snd (Handler_bind (take i vals) r w)), fst (snd (snd (Handler_bind (take i vals) r w))))"

text \<open>
  What lines 116 to 122 append for a rule whose resolved value is \<open>s\<close>.
\<close>

definition produced :: "'w Value \<Rightarrow> string \<Rightarrow> ctxValue list" where
  "produced v s =
     (if s \<noteq> '''' then [\<lparr>location = OutboundLocation v, name = OutboundName v, value = s\<rparr>]
      else [])"

text \<open>
  The values of \<^verbatim>\<open>outboundValue\<close> at line 116, rule by rule, in a pass that starts with the
  request \<open>r\<close> and the state \<open>w\<close>.
\<close>

fun resolvedValues :: "'w Value list \<Rightarrow> Request \<Rightarrow> 'w \<Rightarrow> string list" where
  "resolvedValues [] r w = []"
| "resolvedValues (v # vs) r w =
     (case resolve r v w of (s, r', w', called) \<Rightarrow> s # resolvedValues vs r' w')"

text \<open>
  Two requests with the same header map, hence the same cookies, and the same query.
\<close>

definition sameInbound :: "Request \<Rightarrow> Request \<Rightarrow> bool" where
  "sameInbound r1 r2 =
     (Header r1 = Header r2 \<and> map_option RawQuery (URL r1) = map_option RawQuery (URL r2))"

text \<open>
  Two passes over the same rules agree on their fallbacks when, at every rule whose
  fallback both call, the two calls return the same string and leave the requests with
  the same header map and query.
\<close>

fun fallbacksAgree :: "'w Value list \<Rightarrow> Request \<Rightarrow> 'w \<Rightarrow> Request \<Rightarrow> 'w \<Rightarrow> bool" where
  "fallbacksAgree [] r1 w1 r2 w2 = True"
| "fallbacksAgree (v # vs) r1 w1 r2 w2 =
     (case resolve r1 v w1 of (s1, r1', w1', called1) \<Rightarrow>
        (case resolve r2 v w2 of (s2, r2', w2', called2) \<Rightarrow>
           (if called1 \<and> called2 then s1 = s2 \<and> sameInbound r1' r2' else True) \<and>
           fallbacksAgree vs r1' w1' r2' w2'))"

text \<open>
  The carrier of a request: the triples stored under the package's key in its context,
  if there are any (line 165).
\<close>

definition carrier :: "Request \<Rightarrow> ctxValue list option" where
  "carrier req =
     (case Context_Value (ctx req) (ctxDataName ''httptrack'') of
        Some (ctxData vals) \<Rightarrow> Some vals
      | _ \<Rightarrow> None)"

text \<open>
  The locations that the \<^verbatim>\<open>switch\<close> of line 170 has a case for.
\<close>

definition knownLocation :: "ctxValue \<Rightarrow> bool" where
  "knownLocation v =
     (location v = LocationHeader \<or> location v = LocationCookie \<or> location v = LocationQueryParam)"

text \<open>
  The triples at which the loop of \<^verbatim>\<open>AddContextData\<close> cannot go on: a query-parameter
  triple on a request without URL, where line 180 returns, and a header or cookie triple
  on a request whose \<^verbatim>\<open>Header\<close> map is nil, where the write panics.
\<close>

definition stopsAt :: "Request \<Rightarrow> ctxValue \<Rightarrow> bool" where
  "stopsAt req v =
     ((location v = LocationQueryParam \<and> URL req = None) \<or>
      ((location v = LocationHeader \<or> location v = LocationCookie) \<and> Header req = None))"

text \<open>
  The line that \<^verbatim>\<open>AddCookie\<close> leaves as the \<^verbatim>\<open>Cookie\<close> header of a request whose header map is
  \<open>m\<close>, for the cookie of a triple.
\<close>

definition cookieLine :: "(string \<Rightarrow> string list) \<Rightarrow> ctxValue \<Rightarrow> string" where
  "cookieLine m v =
     (case m ''Cookie'' of
        [] \<Rightarrow> sanitizeCookieName (name v) @ ''='' @ sanitizeCookieValue (value v)
      | old # rest \<Rightarrow>
          if old = '''' then sanitizeCookieName (name v) @ ''='' @ sanitizeCookieValue (value v)
          else old @ ''; '' @ sanitizeCookieName (name v) @ ''='' @ sanitizeCookieValue (value v))"

text \<open>
  One triple written onto a request, where the loop does not stop: a header triple is
  appended to the values of its canonical key, a cookie triple sets the \<^verbatim>\<open>Cookie\<close> header
  to one line, a query-parameter triple is appended to the parsed query, which is encoded
  again; a triple of another location changes nothing. \<open>writtenAll\<close> writes a list of
  triples in order.
\<close>

definition written :: "ctxValue \<Rightarrow> Request \<Rightarrow> Request" where
  "written v req =
     (if location v = LocationHeader then
        req\<lparr>Header := map_option
               (\<lambda>m. m(CanonicalHeaderKey (name v) := m (CanonicalHeaderKey (name v)) @ [value v]))
               (Header req)\<rparr>
      else if location v = LocationCookie then
        req\<lparr>Header := map_option (\<lambda>m. m(''Cookie'' := [cookieLine m v])) (Header req)\<rparr>
      else if location v = LocationQueryParam then
        req\<lparr>URL := map_option
               (\<lambda>u. u\<lparr>RawQuery := Values_Encode (URL_Query u @ [(name v, value v)])\<rparr>)
               (URL req)\<rparr>
      else req)"

definition writtenAll :: "ctxValue list \<Rightarrow> Request \<Rightarrow> Request" where
  "writtenAll vals req = foldl (\<lambda>rq v. written v rq) req vals"

text \<open>
  The values that a list of triples has for a header key and for a query key, in order,
  and the values that \<^verbatim>\<open>URL.Query()\<close> gives for a key.
\<close>

definition headerWrites :: "ctxValue list \<Rightarrow> string \<Rightarrow> string list" where
  "headerWrites vals k =
     map value (filter (\<lambda>v. location v = LocationHeader \<and> CanonicalHeaderKey (name v) = k) vals)"

definition queryWrites :: "ctxValue list \<Rightarrow> string \<Rightarrow> string list" where
  "queryWrites vals k =
     map value (filter (\<lambda>v. location v = LocationQueryParam \<and> name v = k) vals)"

definition queryValues :: "URL \<Rightarrow> string \<Rightarrow> string list" where
  "queryValues u k = map snd (filter (\<lambda>p. fst p = k) (URL_Query u))"

text \<open>
  The query-parameter triples of a list as (key, value) pairs, and whether the list has a
  cookie triple.
\<close>

definition queryPairs :: "ctxValue list \<Rightarrow> (string \<times> string) list" where
  "queryPairs vals = map (\<lambda>v. (name v, value v)) (filter (\<lambda>v. location v = LocationQueryParam) vals)"

definition hasCookieTriple :: "ctxValue list \<Rightarrow> bool" where
  "hasCookieTriple vals = list_ex (\<lambda>v. location v = LocationCookie) vals"

subsection \<open>Requests and rules of the tests\<close>

text \<open>
  The fixtures of the test file and some more. \<open>http_NewRequest\<close> builds what
  \<^verbatim>\<open>http.NewRequestWithContext\<close> returns for a URL that parses: a request with that URL, an
  empty \<^verbatim>\<open>Header\<close> map and the context. \<open>bareRequest\<close> is \<^verbatim>\<open>(&http.Request{}).WithContext(ctx)\<close>,
  whose URL and \<^verbatim>\<open>Header\<close> map are nil. The fallbacks \<open>missingFunc\<close> and \<open>newTrackingID\<close>
  leave the request as it is (\<open>headerOf\<close> and \<open>urlOf\<close> are the contents it has); the state
  of \<open>newTrackingID\<close> is the number of IDs it has generated. \<open>setsSession\<close> sets the header
  \<^verbatim>\<open>X-Session\<close> on its copy of the request.
\<close>

definition headerOf :: "Request \<Rightarrow> string \<Rightarrow> string list" where
  "headerOf r = (case Header r of Some m \<Rightarrow> m | None \<Rightarrow> (\<lambda>k. []))"

definition urlOf :: "Request \<Rightarrow> URL" where
  "urlOf r = (case URL r of Some u \<Rightarrow> u | None \<Rightarrow> \<lparr>Path = '''', RawQuery = []\<rparr>)"

definition http_NewRequest :: "Context \<Rightarrow> string \<Rightarrow> string \<Rightarrow> unit \<Rightarrow> error + Request" where
  "http_NewRequest c method url body =
     Inr \<lparr>Method = method, URL = Some \<lparr>Path = url, RawQuery = []\<rparr>, Header = Some (\<lambda>k. []),
          RemoteAddr = '''', ctx = c\<rparr>"

definition plainRequest :: Request where
  "plainRequest =
     \<lparr>Method = ''GET'', URL = Some \<lparr>Path = ''/'', RawQuery = []\<rparr>, Header = Some (\<lambda>k. []),
      RemoteAddr = '''', ctx = Background\<rparr>"

definition testRequest :: Request where
  "testRequest =
     \<lparr>Method = ''GET'',
      URL = Some \<lparr>Path = ''/test'', RawQuery = [Pair ''query'' ''query-value'']\<rparr>,
      Header = Some ((\<lambda>k. [])(''X-Header'' := [''header-value''],
                               ''Cookie'' := [''cookie=cookie-value''])),
      RemoteAddr = '''', ctx = Background\<rparr>"

definition trackValues :: "nat Value list" where
  "trackValues =
     [\<lparr>InboundLocation = LocationHeader, InboundName = ''x-header'',
       OutboundLocation = LocationHeader, OutboundName = ''x-new-header'', MissingFunc = None\<rparr>,
      \<lparr>InboundLocation = LocationQueryParam, InboundName = ''query'',
       OutboundLocation = LocationQueryParam, OutboundName = ''new-query'', MissingFunc = None\<rparr>,
      \<lparr>InboundLocation = LocationCookie, InboundName = ''cookie'',
       OutboundLocation = LocationCookie, OutboundName = ''new-cookie'', MissingFunc = None\<rparr>]"

definition testTriples :: "ctxValue list" where
  "testTriples =
     [\<lparr>location = LocationHeader, name = ''x-new-header'', value = ''header-value''\<rparr>,
      \<lparr>location = LocationQueryParam, name = ''new-query'', value = ''query-value''\<rparr>,
      \<lparr>location = LocationCookie, name = ''new-cookie'', value = ''cookie-value''\<rparr>]"

definition testContext :: Context where
  "testContext = WithValue Background (ctxDataName ''httptrack'') (ctxData testTriples)"

definition outboundRequest :: Request where
  "outboundRequest =
     \<lparr>Method = ''GET'',
      URL = Some \<lparr>Path = ''/downstream'',
                  RawQuery = [Pair ''new-query'' ''old'', Unparsable ''x;y'', Pair ''a'' ''1'']\<rparr>,
      Header = Some ((\<lambda>k. [])(''X-New-Header'' := [''old''], ''Cookie'' := [''a=1'', ''b=2''])),
      RemoteAddr = '''', ctx = testContext\<rparr>"

definition bareRequest :: Request where
  "bareRequest = \<lparr>Method = '''', URL = None, Header = None, RemoteAddr = '''', ctx = testContext\<rparr>"

definition missingFunc ::
  "string \<Rightarrow> Request \<Rightarrow> nat \<Rightarrow> string \<times> (string \<Rightarrow> string list) \<times> URL \<times> nat" where
  "missingFunc field req w = (''blah'', headerOf req, urlOf req, Suc w)"

definition missingVals :: "nat Value list" where
  "missingVals =
     [\<lparr>InboundLocation = LocationHeader, InboundName = ''x-header'',
       OutboundLocation = LocationHeader, OutboundName = ''x-header'',
       MissingFunc = Some missingFunc\<rparr>]"

definition newTrackingID ::
  "string \<Rightarrow> Request \<Rightarrow> nat \<Rightarrow> string \<times> (string \<Rightarrow> string list) \<times> URL \<times> nat" where
  "newTrackingID field req w = (''id'' @ replicate w (CHR ''+''), headerOf req, urlOf req, Suc w)"

definition generatedVals :: "nat Value list" where
  "generatedVals =
     [\<lparr>InboundLocation = LocationHeader, InboundName = ''x-tracking-id'',
       OutboundLocation = LocationHeader, OutboundName = ''x-tracking-id'',
       MissingFunc = Some newTrackingID\<rparr>]"

definition setsSession ::
  "string \<Rightarrow> Request \<Rightarrow> nat \<Rightarrow> string \<times> (string \<Rightarrow> string list) \<times> URL \<times> nat" where
  "setsSession field req w =
     (''t1'', (headerOf req)(''X-Session'' := [''s1'']), urlOf req, Suc w)"

definition sharingVals :: "nat Value list" where
  "sharingVals =
     [\<lparr>InboundLocation = LocationHeader, InboundName = ''x-tracking-id'',
       OutboundLocation = LocationHeader, OutboundName = ''x-tracking-id'',
       MissingFunc = Some setsSession\<rparr>,
      \<lparr>InboundLocation = LocationHeader, InboundName = ''x-session'',
       OutboundLocation = LocationHeader, OutboundName = ''x-session'',
       MissingFunc = Some missingFunc\<rparr>]"

definition outboundAfter :: Request where
  "outboundAfter =
     \<lparr>Method = ''GET'',
      URL = Some \<lparr>Path = ''/downstream'',
                  RawQuery = [Pair ''a'' ''1'', Pair ''new-query'' ''old'',
                              Pair ''new-query'' ''query-value'']\<rparr>,
      Header = Some ((\<lambda>k. [])(''X-New-Header'' := [''old'', ''header-value''],
                               ''Cookie'' := [''a=1; new-cookie=cookie-value''])),
      RemoteAddr = '''', ctx = testContext\<rparr>"

definition cookieFirst :: "ctxValue list" where
  "cookieFirst =
     [\<lparr>location = LocationHeader, name = ''x-new-header'', value = ''header-value''\<rparr>,
      \<lparr>location = LocationCookie, name = ''new-cookie'', value = ''cookie-value''\<rparr>,
      \<lparr>location = 7, name = ''other'', value = ''ignored''\<rparr>,
      \<lparr>location = LocationQueryParam, name = ''new-query'', value = ''query-value''\<rparr>,
      \<lparr>location = LocationHeader, name = ''x-late'', value = ''never-written''\<rparr>]"

definition noURLRequest :: Request where
  "noURLRequest =
     \<lparr>Method = ''GET'', URL = None,
      Header = Some ((\<lambda>k. [])(''X-New-Header'' := [''old''], ''Cookie'' := [''a=1''])),
      RemoteAddr = '''',
      ctx = WithValue Background (ctxDataName ''httptrack'') (ctxData cookieFirst)\<rparr>"

definition noURLAfter :: Request where
  "noURLAfter =
     \<lparr>Method = ''GET'', URL = None,
      Header = Some ((\<lambda>k. [])(''X-New-Header'' := [''old'', ''header-value''],
                               ''Cookie'' := [''a=1; new-cookie=cookie-value''])),
      RemoteAddr = '''',
      ctx = WithValue Background (ctxDataName ''httptrack'') (ctxData cookieFirst)\<rparr>"

section \<open>Properties of the binding pass\<close>

subsection \<open>one iteration\<close>

lemma resolve_cases:
  obtains (called) f s m u w' where "inboundValue r v = ''''" "MissingFunc v = Some f"
      "f (OutboundName v) r w = (s, m, u, w')" "resolve r v w = (s, afterCall r m u, w', True)"
  | (kept) "\<not> needsFallback r v" "resolve r v w = (inboundValue r v, r, w, False)"
proof (cases "needsFallback r v")
  case True
  then obtain f where f: "inboundValue r v = ''''" "MissingFunc v = Some f"
    by (auto simp: needsFallback_def)
  obtain s m u w' where c: "f (OutboundName v) r w = (s, m, u, w')"
    by (cases "f (OutboundName v) r w") auto
  have "resolve r v w = (s, afterCall r m u, w', True)"
    using f c by (simp add: resolve_def)
  then show ?thesis using f c called by blast
next
  case False
  then have "resolve r v w = (inboundValue r v, r, w, False)"
    by (auto simp: needsFallback_def resolve_def Let_def split: option.splits)
  then show ?thesis using False kept by blast
qed

lemma resolve_called: "snd (snd (snd (resolve r v w))) = needsFallback r v"
  by (rule resolve_cases [where r = r and v = v and w = w]) (simp_all add: needsFallback_def)

lemma Handler_step_eq:
  "Handler_step i v (cv, r, w, calls) =
     (cv @ produced v (fst (resolve r v w)),
      fst (snd (resolve r v w)),
      fst (snd (snd (resolve r v w))),
      calls @ (if needsFallback r v then [i] else []))"
  using resolve_called [of r v w]
  by (cases "resolve r v w") (auto simp: Handler_step_def produced_def)

subsection \<open>the loop\<close>

lemma Handler_range_append:
  "Handler_range i (xs @ ys) st = Handler_range (i + length xs) ys (Handler_range i xs st)"
  by (induction xs arbitrary: i st) simp_all

lemma Handler_range_calls:
  "\<exists>cs. snd (snd (snd (Handler_range i vs (cv, r, w, calls)))) = calls @ cs \<and>
        (\<forall>j \<in> set cs. i \<le> j \<and> j < i + length vs)"
proof (induction vs arbitrary: i cv r w calls)
  case Nil
  then show ?case by simp
next
  case (Cons v vs)
  let ?c = "calls @ (if needsFallback r v then [i] else [])"
  obtain cs where cs: "snd (snd (snd (Handler_range (Suc i) vs
        (cv @ produced v (fst (resolve r v w)), fst (snd (resolve r v w)),
         fst (snd (snd (resolve r v w))), ?c)))) = ?c @ cs"
      "\<forall>j \<in> set cs. Suc i \<le> j \<and> j < Suc i + length vs"
    using Cons.IH by blast
  have "snd (snd (snd (Handler_range i (v # vs) (cv, r, w, calls)))) =
          calls @ ((if needsFallback r v then [i] else []) @ cs)"
    using cs(1) by (simp add: Handler_step_eq)
  moreover have "\<forall>j \<in> set ((if needsFallback r v then [i] else []) @ cs).
                   i \<le> j \<and> j < i + length (v # vs)"
    using cs(2) by auto
  ultimately show ?case by blast
qed

lemma Handler_range_values:
  "fst (Handler_range i vs (cv, r, w, calls)) =
     cv @ concat (map (\<lambda>(v, s). produced v s) (zip vs (resolvedValues vs r w)))"
proof (induction vs arbitrary: i cv r w calls)
  case Nil
  then show ?case by simp
next
  case (Cons v vs)
  obtain s r' w' called where res: "resolve r v w = (s, r', w', called)"
    by (cases "resolve r v w") auto
  show ?case
    by (simp add: Handler_step_eq res Cons.IH)
qed

lemma length_resolvedValues: "length (resolvedValues vs r w) = length vs"
  by (induction vs arbitrary: r w) (auto split: prod.splits)

lemma Handler_range_state:
  "fst (snd (Handler_range i vs (cv, r, w, calls))) = fst (snd (Handler_range j vs (cv', r, w, calls')))"
  "fst (snd (snd (Handler_range i vs (cv, r, w, calls)))) =
     fst (snd (snd (Handler_range j vs (cv', r, w, calls'))))"
proof (induction vs arbitrary: i j cv cv' r w calls calls')
  case Nil
  {
    case 1
    then show ?case by simp
  next
    case 2
    then show ?case by simp
  }
next
  case (Cons v vs)
  {
    case 1
    then show ?case by (simp add: Handler_step_eq Cons.IH(1) [of "Suc i" _ _ _ _ "Suc j"])
  next
    case 2
    then show ?case by (simp add: Handler_step_eq Cons.IH(2) [of "Suc i" _ _ _ _ "Suc j"])
  }
qed

lemma Handler_bind_split:
  assumes "i < length vals"
  shows "Handler_bind vals r w =
           Handler_range (Suc i) (drop (Suc i) vals)
             (Handler_step i (vals ! i) (Handler_bind (take i vals) r w))"
proof -
  have "vals = take i vals @ (vals ! i # drop (Suc i) vals)"
    using assms by (simp add: id_take_nth_drop)
  then have "Handler_bind vals r w =
      Handler_range 0 (take i vals @ (vals ! i # drop (Suc i) vals)) ([], r, w, [])"
    by (simp add: Handler_bind_def)
  also have "\<dots> = Handler_range (Suc i) (drop (Suc i) vals)
             (Handler_step i (vals ! i) (Handler_bind (take i vals) r w))"
    using assms by (simp add: Handler_range_append Handler_bind_def min_def)
  finally show ?thesis .
qed

lemma count_list_notin: "x \<notin> set xs \<Longrightarrow> count_list xs x = 0"
  by (simp add: count_list_0_iff)

lemma Handler_bind_count:
  assumes bind: "Handler_bind vals r w = (ctxValues, r', w', calls)"
  shows "count_list calls i =
           (if i < length vals \<and> needsFallback (fst (stateAt vals r w i)) (vals ! i) then 1 else 0)"
proof (cases "i < length vals")
  case False
  obtain cs where cs: "calls = [] @ cs" "\<forall>j \<in> set cs. 0 \<le> j \<and> j < 0 + length vals"
    using Handler_range_calls [of 0 vals "[]" r w "[]"] bind by (auto simp: Handler_bind_def)
  then have "i \<notin> set calls" using False by auto
  then show ?thesis using False by (simp add: count_list_notin)
next
  case True
  obtain cv1 r1 w1 c1 where before: "Handler_bind (take i vals) r w = (cv1, r1, w1, c1)"
    by (cases "Handler_bind (take i vals) r w") auto
  obtain cs1 where cs1: "c1 = [] @ cs1" "\<forall>j \<in> set cs1. 0 \<le> j \<and> j < 0 + length (take i vals)"
    using Handler_range_calls [of 0 "take i vals" "[]" r w "[]"] before
    by (auto simp: Handler_bind_def)
  let ?ind = "if needsFallback r1 (vals ! i) then [i] else []"
  define cvx where "cvx = cv1 @ produced (vals ! i) (fst (resolve r1 (vals ! i) w1))"
  define rx where "rx = fst (snd (resolve r1 (vals ! i) w1))"
  define wx where "wx = fst (snd (snd (resolve r1 (vals ! i) w1)))"
  define cx where "cx = c1 @ ?ind"
  let ?st = "Handler_step i (vals ! i) (cv1, r1, w1, c1)"
  have st: "?st = (cvx, rx, wx, cx)"
    unfolding cvx_def rx_def wx_def cx_def by (rule Handler_step_eq)
  from Handler_range_calls [of "Suc i" "drop (Suc i) vals" cvx rx wx cx]
  obtain cs2 where cs2:
    "snd (snd (snd (Handler_range (Suc i) (drop (Suc i) vals) (cvx, rx, wx, cx)))) = cx @ cs2"
    "\<forall>j \<in> set cs2. Suc i \<le> j \<and> j < Suc i + length (drop (Suc i) vals)"
    by blast
  have "Handler_range (Suc i) (drop (Suc i) vals) (cvx, rx, wx, cx) = (ctxValues, r', w', calls)"
    using Handler_bind_split [OF True, of r w] bind before st by simp
  then have calls: "calls = cs1 @ ?ind @ cs2"
    using cs2(1) cs1(1) by (simp add: cx_def)
  have "i \<notin> set cs1" "i \<notin> set cs2"
    using cs1(2) cs2(2) by auto
  then have "count_list calls i = count_list ?ind i"
    unfolding calls by (simp add: count_list_notin)
  moreover have "fst (stateAt vals r w i) = r1"
    by (simp add: stateAt_def before)
  ultimately show ?thesis using True by simp
qed

text \<open>fallbacks that leave the request alone\<close>

lemma resolve_request_kept:
  assumes "case MissingFunc v of None \<Rightarrow> True
           | Some f \<Rightarrow> \<forall>n rq x. (case f n rq x of (s, m, u, x') \<Rightarrow> afterCall rq m u = rq)"
  shows "fst (snd (resolve r v w)) = r"
proof (rule resolve_cases [where r = r and v = v and w = w])
  fix f s m u w'
  assume f: "MissingFunc v = Some f" "f (OutboundName v) r w = (s, m, u, w')"
    and res: "resolve r v w = (s, afterCall r m u, w', True)"
  have "case f (OutboundName v) r w of (s, m, u, x') \<Rightarrow> afterCall r m u = r"
    using assms f(1) by simp
  then show ?thesis using f(2) res by simp
next
  assume "resolve r v w = (inboundValue r v, r, w, False)"
  then show ?thesis by simp
qed

lemma Handler_range_request_kept:
  assumes "\<And>v. v \<in> set vs \<Longrightarrow> (case MissingFunc v of None \<Rightarrow> True
           | Some f \<Rightarrow> \<forall>n rq x. (case f n rq x of (s, m, u, x') \<Rightarrow> afterCall rq m u = rq))"
  shows "fst (snd (Handler_range i vs (cv, r, w, calls))) = r"
  using assms
proof (induction vs arbitrary: i cv w calls)
  case Nil
  then show ?case by simp
next
  case (Cons v vs)
  have "fst (snd (resolve r v w)) = r"
    using Cons.prems [of v] by (intro resolve_request_kept) simp
  then show ?case
    using Cons.IH Cons.prems by (simp add: Handler_step_eq)
qed

lemma stateAt_request_kept:
  assumes "\<And>v. v \<in> set vals \<Longrightarrow> (case MissingFunc v of None \<Rightarrow> True
           | Some f \<Rightarrow> \<forall>n rq x. (case f n rq x of (s, m, u, x') \<Rightarrow> afterCall rq m u = rq))"
  shows "fst (stateAt vals r w i) = r"
proof -
  have "fst (snd (Handler_range 0 (take i vals) ([], r, w, []))) = r"
    using assms by (intro Handler_range_request_kept) (auto dest: in_set_takeD)
  then show ?thesis
    by (simp add: stateAt_def Handler_bind_def)
qed

text \<open>the result of a fallback is in the carrier\<close>

lemma Handler_bind_values:
  "fst (Handler_bind vals r w) =
     concat (map (\<lambda>(v, s). produced v s) (zip vals (resolvedValues vals r w)))"
  using Handler_range_values [of 0 vals "[]" r w "[]"] by (simp add: Handler_bind_def)

lemma fallback_result_kept:
  assumes bind: "Handler_bind vals r w = (ctxValues, r', w', calls)"
    and i: "i < length vals"
    and at: "stateAt vals r w i = (ri, wi)"
    and absent: "inboundValue ri (vals ! i) = ''''"
    and f: "MissingFunc (vals ! i) = Some f"
    and res: "f (OutboundName (vals ! i)) ri wi = (s, m, u, x)"
    and s: "s \<noteq> ''''"
  shows "\<lparr>location = OutboundLocation (vals ! i), name = OutboundName (vals ! i), value = s\<rparr>
           \<in> set ctxValues"
proof -
  let ?t = "\<lparr>location = OutboundLocation (vals ! i), name = OutboundName (vals ! i), value = s\<rparr>"
  obtain cv1 c1 where before: "Handler_bind (take i vals) r w = (cv1, ri, wi, c1)"
    using at by (cases "Handler_bind (take i vals) r w") (auto simp: stateAt_def)
  have r: "resolve ri (vals ! i) wi = (s, afterCall ri m u, x, True)"
    using absent f res by (simp add: resolve_def)
  have st: "Handler_step i (vals ! i) (cv1, ri, wi, c1) =
              (cv1 @ [?t], afterCall ri m u, x, c1 @ [i])"
    using r s absent f by (simp add: Handler_step_eq produced_def needsFallback_def)
  have "Handler_range (Suc i) (drop (Suc i) vals)
          (cv1 @ [?t], afterCall ri m u, x, c1 @ [i]) = (ctxValues, r', w', calls)"
    using Handler_bind_split [OF i, of r w] bind before st by simp
  then have "ctxValues = fst (Handler_range (Suc i) (drop (Suc i) vals)
                           (cv1 @ [?t], afterCall ri m u, x, c1 @ [i]))"
    by simp
  then show ?thesis
    by (simp add: Handler_range_values)
qed

text \<open>the resolved values, rule by rule\<close>

lemma resolvedValues_append:
  "resolvedValues (xs @ ys) r w =
     resolvedValues xs r w @
     resolvedValues ys (fst (snd (Handler_range i xs (cv, r, w, calls))))
                       (fst (snd (snd (Handler_range i xs (cv, r, w, calls)))))"
proof (induction xs arbitrary: i cv r w calls)
  case Nil
  then show ?case by simp
next
  case (Cons v xs)
  obtain s r' w' called where res: "resolve r v w = (s, r', w', called)"
    by (cases "resolve r v w") auto
  show ?case
    using Cons.IH [of r' w' "Suc i" "cv @ produced v s"
        "calls @ (if needsFallback r v then [i] else [])"]
    by (simp add: res Handler_step_eq)
qed

lemma resolvedValues_nth:
  assumes "i < length vals"
  shows "resolvedValues vals r w ! i =
           fst (resolve (fst (stateAt vals r w i)) (vals ! i) (snd (stateAt vals r w i)))"
proof -
  let ?xs = "take i vals" and ?ys = "vals ! i # drop (Suc i) vals"
  let ?ri = "fst (stateAt vals r w i)" and ?wi = "snd (stateAt vals r w i)"
  have v: "vals = ?xs @ ?ys"
    using assms by (simp add: id_take_nth_drop)
  have st: "?ri = fst (snd (Handler_range 0 ?xs ([], r, w, [])))"
           "?wi = fst (snd (snd (Handler_range 0 ?xs ([], r, w, []))))"
    by (simp_all add: stateAt_def Handler_bind_def)
  have app: "resolvedValues (?xs @ ?ys) r w = resolvedValues ?xs r w @ resolvedValues ?ys ?ri ?wi"
    unfolding st by (rule resolvedValues_append)
  have len: "length (resolvedValues ?xs r w) = i"
    using assms by (simp add: length_resolvedValues)
  obtain s r' w' called where res: "resolve ?ri (vals ! i) ?wi = (s, r', w', called)"
    by (cases "resolve ?ri (vals ! i) ?wi") auto
  have ys: "resolvedValues ?ys ?ri ?wi = s # resolvedValues (drop (Suc i) vals) r' w'"
    by (simp add: res)
  have "resolvedValues (?xs @ ?ys) r w ! i = s"
    unfolding app ys using len by (metis nth_append_length)
  then have "resolvedValues vals r w ! i = s"
    using v by simp
  then show ?thesis by (simp add: res)
qed

lemma length_produced: "length (produced v s) \<le> 1"
  by (simp add: produced_def)

lemma length_concat_produced:
  "length (concat (map (\<lambda>(v, s). produced v s) ps)) \<le> length ps"
  by (induction ps) (auto simp: produced_def)

section \<open>Properties of AddContextData\<close>

lemma Location_distinct:
  "LocationHeader \<noteq> LocationCookie" "LocationHeader \<noteq> LocationQueryParam"
  "LocationCookie \<noteq> LocationQueryParam" "LocationCookie \<noteq> LocationHeader"
  "LocationQueryParam \<noteq> LocationHeader" "LocationQueryParam \<noteq> LocationCookie"
  by (simp_all add: LocationHeader_def LocationCookie_def LocationQueryParam_def)

lemma canon_Cookie: "CanonicalHeaderKey ''Cookie'' = ''Cookie''"
  by (simp add: CanonicalHeaderKey_def isToken_def lowerLetters_def upperLetters_def
      toUpper_def toLower_def Let_def)

lemma AddContextData_no_carrier:
  "carrier req = None \<Longrightarrow> AddContextData req = Return (Some ErrMissingContext, req)"
  by (auto simp: carrier_def AddContextData_def split: option.splits ctxVal.splits)

lemma AddContextData_with_carrier:
  "carrier req = Some vals \<Longrightarrow> AddContextData req = AddContextData_range vals req"
  by (auto simp: carrier_def AddContextData_def split: option.splits ctxVal.splits)

lemma carrier_Handler_request:
  "ctx req = ctx (Handler_request r ctxValues) \<Longrightarrow> carrier req = Some ctxValues"
  by (simp add: carrier_def Handler_request_def)

subsection \<open>one iteration\<close>

lemma AddCookie_Some:
  "Header req = Some m \<Longrightarrow>
   AddCookie req (name v, value v) = Return (req\<lparr>Header := Some (m(''Cookie'' := [cookieLine m v]))\<rparr>)"
  by (auto simp: AddCookie_def Header_Get_def Header_Set_def canon_Cookie cookieLine_def Let_def
      split: list.splits)

lemma AddCookie_None: "Header req = None \<Longrightarrow> AddCookie req c = Panic"
  by (simp add: AddCookie_def Header_Get_def Header_Set_def Let_def)

lemma AddContextData_step_written:
  "\<not> stopsAt req v \<Longrightarrow> AddContextData_step v req = Return (None, written v req)"
  by (cases "Header req"; cases "URL req")
     (auto simp: stopsAt_def AddContextData_step_def written_def Header_Add_def AddCookie_Some
        Values_Add_def Location_distinct Let_def)

lemma AddContextData_step_stops:
  "stopsAt req v \<Longrightarrow>
   AddContextData_step v req =
     (if location v = LocationQueryParam
      then Return (Some (errors_New ''request has no URL set''), req) else Panic)"
  by (auto simp: stopsAt_def AddContextData_step_def Header_Add_def AddCookie_None
      Location_distinct)

lemma AddContextData_step_unknown:
  "\<not> knownLocation v \<Longrightarrow> AddContextData_step v req = Return (None, req)"
  by (simp add: knownLocation_def AddContextData_step_def)

lemma written_nil:
  "Header (written v req) = None \<longleftrightarrow> Header req = None"
  "URL (written v req) = None \<longleftrightarrow> URL req = None"
  by (simp_all add: written_def)

lemma stopsAt_written: "stopsAt (written v req) = stopsAt req"
  by (simp add: fun_eq_iff stopsAt_def written_nil)

lemma stopsAt_writtenAll: "stopsAt (writtenAll vs req) = stopsAt req"
  unfolding writtenAll_def by (induction vs arbitrary: req) (simp_all add: stopsAt_written)

lemma writtenAll_Nil: "writtenAll [] req = req"
  by (simp add: writtenAll_def)

lemma writtenAll_Cons: "writtenAll (v # vs) req = writtenAll vs (written v req)"
  by (simp add: writtenAll_def)

lemma writtenAll_snoc: "writtenAll (vs @ [v]) req = written v (writtenAll vs req)"
  by (simp add: writtenAll_def)

subsection \<open>the loop\<close>

lemma AddContextData_range_eq:
  "AddContextData_range vals req =
     (case find (stopsAt req) vals of
        None \<Rightarrow> Return (None, writtenAll vals req)
      | Some v \<Rightarrow>
          if location v = LocationQueryParam
          then Return (Some (errors_New ''request has no URL set''),
                       writtenAll (takeWhile (\<lambda>v. \<not> stopsAt req v) vals) req)
          else Panic)"
proof (induction vals arbitrary: req)
  case Nil
  then show ?case by (simp add: writtenAll_Nil)
next
  case (Cons v vs)
  show ?case
  proof (cases "stopsAt req v")
    case True
    then show ?thesis
      by (simp add: AddContextData_step_stops writtenAll_Nil)
  next
    case False
    then show ?thesis
      by (simp add: AddContextData_step_written Cons.IH stopsAt_written writtenAll_Cons
          split: option.splits)
  qed
qed

lemma AddContextData_range_skip:
  "AddContextData_range vals req = AddContextData_range (filter knownLocation vals) req"
proof (induction vals arbitrary: req)
  case Nil
  then show ?case by simp
next
  case (Cons v vs)
  show ?case
  proof (cases "knownLocation v")
    case True
    then show ?thesis
      using Cons.IH by (simp split: outcome.splits prod.splits option.splits)
  next
    case False
    then show ?thesis
      using Cons.IH [of req] by (simp add: AddContextData_step_unknown)
  qed
qed

subsection \<open>what the writes leave alone\<close>

lemma written_frame:
  "Method (written v req) = Method req"
  "RemoteAddr (written v req) = RemoteAddr req"
  "ctx (written v req) = ctx req"
  "map_option Path (URL (written v req)) = map_option Path (URL req)"
  by (simp_all add: written_def option.map_comp comp_def)

lemma writtenAll_frame:
  "Method (writtenAll vs req) = Method req"
  "RemoteAddr (writtenAll vs req) = RemoteAddr req"
  "ctx (writtenAll vs req) = ctx req"
  "map_option Path (URL (writtenAll vs req)) = map_option Path (URL req)"
  unfolding writtenAll_def
  by (induction vs arbitrary: req) (simp_all add: written_frame)

subsection \<open>headers\<close>

lemma written_header:
  assumes "k \<noteq> ''Cookie'' \<or> location v \<noteq> LocationCookie"
  shows "map_option (\<lambda>m. m k) (Header (written v req)) =
         map_option (\<lambda>m. m k @ headerWrites [v] k) (Header req)"
  using assms
  by (cases "Header req") (auto simp: written_def headerWrites_def Location_distinct)

lemma headerWrites_Cons: "headerWrites (v # vs) k = headerWrites [v] k @ headerWrites vs k"
  by (simp add: headerWrites_def)

lemma writtenAll_header:
  assumes "k \<noteq> ''Cookie'' \<or> \<not> hasCookieTriple vs"
  shows "map_option (\<lambda>m. m k) (Header (writtenAll vs req)) =
         map_option (\<lambda>m. m k @ headerWrites vs k) (Header req)"
  using assms
proof (induction vs arbitrary: req)
  case Nil
  then show ?case by (simp add: writtenAll_Nil headerWrites_def)
next
  case (Cons v vs)
  have 1: "k \<noteq> ''Cookie'' \<or> location v \<noteq> LocationCookie"
    and 2: "k \<noteq> ''Cookie'' \<or> \<not> hasCookieTriple vs"
    using Cons.prems by (auto simp: hasCookieTriple_def)
  have "map_option (\<lambda>m. m k) (Header (writtenAll vs (written v req))) =
        map_option (\<lambda>m. m k @ headerWrites vs k) (Header (written v req))"
    using 2 by (rule Cons.IH)
  also have "\<dots> = map_option (\<lambda>l. l @ headerWrites vs k)
                      (map_option (\<lambda>m. m k) (Header (written v req)))"
    by (simp add: option.map_comp comp_def)
  also have "\<dots> = map_option (\<lambda>m. m k @ headerWrites (v # vs) k) (Header req)"
    unfolding written_header [OF 1]
    by (simp add: option.map_comp comp_def headerWrites_Cons [of v vs k])
  finally show ?case by (simp add: writtenAll_Cons)
qed

subsection \<open>the Cookie header\<close>

lemma written_cookie:
  assumes "Header req = Some m" and "location v = LocationCookie"
  shows "Header (written v req) = Some (m(''Cookie'' := [cookieLine m v]))"
  using assms by (simp add: written_def Location_distinct)

lemma prefix_cookieLine:
  "m ''Cookie'' = c # rest \<Longrightarrow> c \<noteq> '''' \<Longrightarrow> prefix c (cookieLine m v)"
  by (simp add: cookieLine_def)

lemma cookieLine_nonempty: "cookieLine m v \<noteq> ''''"
  by (simp add: cookieLine_def split: list.splits)

lemma written_first_cookie:
  assumes "Header req = Some m" and "m ''Cookie'' = c # rest" and "c \<noteq> ''''"
  shows "\<exists>m' c' rest'. Header (written v req) = Some m' \<and> m' ''Cookie'' = c' # rest' \<and>
           c' \<noteq> '''' \<and> prefix c c'"
proof -
  consider (h) "location v = LocationHeader" | (c) "location v = LocationCookie"
    | (o) "location v \<noteq> LocationHeader" "location v \<noteq> LocationCookie"
    by blast
  then show ?thesis
  proof cases
    case h
    then show ?thesis using assms by (auto simp: written_def)
  next
    case c
    have "prefix c (cookieLine m v)" "cookieLine m v \<noteq> ''''"
      using assms by (simp_all add: prefix_cookieLine cookieLine_nonempty)
    then show ?thesis using assms c by (simp add: written_cookie)
  next
    case o
    then show ?thesis using assms by (auto simp: written_def)
  qed
qed

lemma writtenAll_first_cookie:
  assumes "Header req = Some m" and "m ''Cookie'' = c # rest" and "c \<noteq> ''''"
  shows "\<exists>m' c' rest'. Header (writtenAll vs req) = Some m' \<and> m' ''Cookie'' = c' # rest' \<and>
           c' \<noteq> '''' \<and> prefix c c'"
  using assms
proof (induction vs arbitrary: req m c rest)
  case Nil
  then show ?case by (simp add: writtenAll_Nil)
next
  case (Cons v vs)
  obtain m1 c1 rest1 where 1: "Header (written v req) = Some m1" "m1 ''Cookie'' = c1 # rest1"
      "c1 \<noteq> ''''" "prefix c c1"
    using written_first_cookie [OF Cons.prems, of v] by blast
  obtain m' c' rest' where 2: "Header (writtenAll vs (written v req)) = Some m'"
      "m' ''Cookie'' = c' # rest'" "c' \<noteq> ''''" "prefix c1 c'"
    using Cons.IH [OF 1(1,2,3)] by blast
  have "prefix c c'" using 1(4) 2(4) by (rule prefix_order.trans)
  then show ?case using 2 by (simp add: writtenAll_Cons)
qed

lemma writtenAll_nil:
  "Header (writtenAll vs req) = None \<longleftrightarrow> Header req = None"
  "URL (writtenAll vs req) = None \<longleftrightarrow> URL req = None"
  unfolding writtenAll_def
  by (induction vs arbitrary: req) (simp_all add: written_nil)

lemma writtenAll_Header_Some:
  "Header req = Some m \<Longrightarrow> \<exists>m'. Header (writtenAll vs req) = Some m'"
  using writtenAll_nil(1) [of vs req] by (cases "Header (writtenAll vs req)") auto

lemma writtenAll_cookie_step:
  assumes "Header req = Some m" and "location v = LocationCookie"
  shows "\<exists>mp. Header (writtenAll pre req) = Some mp \<and>
              Header (writtenAll (pre @ [v]) req) = Some (mp(''Cookie'' := [cookieLine mp v]))"
proof -
  obtain mp where mp: "Header (writtenAll pre req) = Some mp"
    using writtenAll_Header_Some [OF assms(1)] by blast
  then show ?thesis
    using assms(2) by (simp add: writtenAll_snoc written_cookie)
qed

subsection \<open>the query\<close>

lemma URL_Query_Encode: "URL_Query (u\<lparr>RawQuery := Values_Encode ps\<rparr>) = sort_key fst ps"
  by (simp add: URL_Query_def Values_Encode_def List.map_filter_def comp_def)

lemma sort_key_sort_key_snoc:
  "sort_key f (sort_key f xs @ [p]) = sort_key f (xs @ [p])"
proof (rule properties_for_sort_key [symmetric])
  show "mset (sort_key f (sort_key f xs @ [p])) = mset (xs @ [p])"
    by simp
next
  fix k
  have "filter (\<lambda>x. f x = f k) (sort_key f (sort_key f xs @ [p])) =
        filter (\<lambda>x. f x = f k) (xs @ [p])"
    by (simp add: sort_key_stable)
  then show "filter (\<lambda>x. f k = f x) (sort_key f (sort_key f xs @ [p])) =
             filter (\<lambda>x. f k = f x) (xs @ [p])"
    by (simp add: eq_commute [of "f k"])
next
  show "sorted (map f (sort_key f (sort_key f xs @ [p])))"
    by simp
qed

lemma Values_Encode_again:
  "Values_Encode (URL_Query (u\<lparr>RawQuery := Values_Encode ps\<rparr>) @ [p]) = Values_Encode (ps @ [p])"
  unfolding URL_Query_Encode by (simp add: Values_Encode_def sort_key_sort_key_snoc)

lemma written_query:
  "location v = LocationQueryParam \<Longrightarrow>
   written v req =
     req\<lparr>URL := map_option (\<lambda>u. u\<lparr>RawQuery := Values_Encode (URL_Query u @ [(name v, value v)])\<rparr>)
                  (URL req)\<rparr>"
  by (simp add: written_def Location_distinct)

lemma written_not_query: "location v \<noteq> LocationQueryParam \<Longrightarrow> URL (written v req) = URL req"
  by (simp add: written_def)

lemma writtenAll_URL_encoded:
  "URL (writtenAll vs (req\<lparr>URL := Some (u\<lparr>RawQuery := Values_Encode ps\<rparr>)\<rparr>)) =
     Some (u\<lparr>RawQuery := Values_Encode (ps @ queryPairs vs)\<rparr>)"
proof (induction vs arbitrary: req ps)
  case Nil
  then show ?case by (simp add: writtenAll_Nil queryPairs_def)
next
  case (Cons v vs)
  show ?case
  proof (cases "location v = LocationQueryParam")
    case True
    have "written v (req\<lparr>URL := Some (u\<lparr>RawQuery := Values_Encode ps\<rparr>)\<rparr>) =
            req\<lparr>URL := Some (u\<lparr>RawQuery := Values_Encode (ps @ [(name v, value v)])\<rparr>)\<rparr>"
      using True by (simp add: written_query Values_Encode_again)
    then show ?thesis
      using True Cons.IH [where req = req and ps = "ps @ [(name v, value v)]"]
      by (simp add: writtenAll_Cons queryPairs_def)
  next
    case False
    have "\<exists>req'. written v (req\<lparr>URL := Some (u\<lparr>RawQuery := Values_Encode ps\<rparr>)\<rparr>) =
            req'\<lparr>URL := Some (u\<lparr>RawQuery := Values_Encode ps\<rparr>)\<rparr>"
      using False
      by (intro exI [of _ "written v (req\<lparr>URL := Some (u\<lparr>RawQuery := Values_Encode ps\<rparr>)\<rparr>)"])
         (simp add: written_def)
    then obtain req' where "written v (req\<lparr>URL := Some (u\<lparr>RawQuery := Values_Encode ps\<rparr>)\<rparr>) =
            req'\<lparr>URL := Some (u\<lparr>RawQuery := Values_Encode ps\<rparr>)\<rparr>"
      by blast
    then show ?thesis
      using False Cons.IH [where req = req' and ps = ps]
      by (simp add: writtenAll_Cons queryPairs_def)
  qed
qed

lemma writtenAll_URL:
  "URL (writtenAll vs req) =
     (if queryPairs vs = [] then URL req
      else map_option (\<lambda>u. u\<lparr>RawQuery := Values_Encode (URL_Query u @ queryPairs vs)\<rparr>) (URL req))"
proof (induction vs arbitrary: req)
  case Nil
  then show ?case by (simp add: writtenAll_Nil queryPairs_def)
next
  case (Cons v vs)
  show ?case
  proof (cases "location v = LocationQueryParam")
    case False
    then show ?thesis
      using Cons.IH [of "written v req"]
      by (simp add: writtenAll_Cons queryPairs_def written_not_query)
  next
    case True
    show ?thesis
    proof (cases "URL req")
      case None
      then have "URL (writtenAll (v # vs) req) = None"
        by (simp add: writtenAll_nil)
      then show ?thesis using None by simp
    next
      case (Some u)
      have w: "written v req =
                 req\<lparr>URL := Some (u\<lparr>RawQuery := Values_Encode (URL_Query u @ [(name v, value v)])\<rparr>)\<rparr>"
        using True Some by (simp add: written_query)
      show ?thesis
        using True Some
        by (simp add: writtenAll_Cons w writtenAll_URL_encoded queryPairs_def)
    qed
  qed
qed

lemma queryValues_Encode:
  "queryValues (u\<lparr>RawQuery := Values_Encode ps\<rparr>) k = map snd (filter (\<lambda>p. fst p = k) ps)"
  by (simp add: queryValues_def URL_Query_Encode sort_key_stable)

lemma queryWrites_queryPairs:
  "map snd (filter (\<lambda>p. fst p = k) (queryPairs vs)) = queryWrites vs k"
  by (induction vs) (auto simp: queryPairs_def queryWrites_def)

lemma writtenAll_queryValues:
  "map_option (\<lambda>u. queryValues u k) (URL (writtenAll vs req)) =
   map_option (\<lambda>u. queryValues u k @ queryWrites vs k) (URL req)"
proof (cases "queryPairs vs = []")
  case True
  then have "queryWrites vs k = []"
    using queryWrites_queryPairs [of k vs] by simp
  then show ?thesis using True by (simp add: writtenAll_URL)
next
  case False
  then show ?thesis
    by (simp add: writtenAll_URL option.map_comp comp_def queryValues_Encode
        queryWrites_queryPairs)
       (simp add: queryValues_def)
qed

section \<open>Evaluation of the fixtures\<close>

lemmas canon_defs = CanonicalHeaderKey_def isToken_def lowerLetters_def upperLetters_def
  toUpper_def toLower_def Let_def

lemmas cookie_defs = Cookie_def readCookies_def readCookie_def TrimString_def Cut_def
  isASCIISpace_def isCookieNameValid_def parseCookieValue_def validCookieValueByte_def
  isToken_def lowerLetters_def upperLetters_def List.map_filter_def Let_def

lemmas bind_defs = Handler_bind_def Handler_step_def resolve_def inboundValue_def Header_Get_def
  Values_Get_def URL_Query_def afterCall_def headerOf_def urlOf_def Let_def
  LocationHeader_def LocationCookie_def LocationQueryParam_def

lemma canon_x_header: "CanonicalHeaderKey ''x-header'' = ''X-Header''"
  by (simp add: canon_defs)

lemma canon_x_new_header: "CanonicalHeaderKey ''x-new-header'' = ''X-New-Header''"
  by (simp add: canon_defs)

lemma canon_x_tracking_id: "CanonicalHeaderKey ''x-tracking-id'' = ''X-Tracking-Id''"
  by (simp add: canon_defs)

lemma canon_x_session: "CanonicalHeaderKey ''x-session'' = ''X-Session''"
  by (simp add: canon_defs)

lemma afterCall_same: "afterCall rq (headerOf rq) (urlOf rq) = rq"
  by (cases "Header rq"; cases "URL rq") (simp_all add: afterCall_def headerOf_def urlOf_def)

lemma bind_missingVals:
  "Handler_bind missingVals plainRequest 0 =
     ([\<lparr>location = LocationHeader, name = ''x-header'', value = ''blah''\<rparr>], plainRequest, 1, [0])"
  by (simp add: missingVals_def plainRequest_def bind_defs missingFunc_def canon_x_header)

lemma bind_missingVals_present:
  "Handler_bind missingVals testRequest 0 =
     ([\<lparr>location = LocationHeader, name = ''x-header'', value = ''header-value''\<rparr>],
      testRequest, 0, [])"
  by (simp add: missingVals_def testRequest_def bind_defs canon_x_header)

lemma bind_sharingVals:
  "Handler_bind sharingVals plainRequest 0 =
     ([\<lparr>location = LocationHeader, name = ''x-tracking-id'', value = ''t1''\<rparr>,
       \<lparr>location = LocationHeader, name = ''x-session'', value = ''s1''\<rparr>],
      plainRequest\<lparr>Header := Some ((\<lambda>k. [])(''X-Session'' := [''s1'']))\<rparr>, 1, [0])"
  by (simp add: sharingVals_def plainRequest_def bind_defs setsSession_def canon_x_tracking_id
      canon_x_session)

lemma carrier_outboundRequest: "carrier outboundRequest = Some testTriples"
  by (simp add: carrier_def outboundRequest_def testContext_def)

lemma carrier_bareRequest: "carrier bareRequest = Some testTriples"
  by (simp add: carrier_def bareRequest_def testContext_def)

lemma carrier_plainRequest: "carrier plainRequest = None"
  by (simp add: carrier_def plainRequest_def)

lemma http_NewRequest_plain: "http_NewRequest Background ''GET'' ''/'' () = Inr plainRequest"
  by (simp add: http_NewRequest_def plainRequest_def)

lemma AddContextData_bareRequest: "AddContextData bareRequest = Panic"
  unfolding AddContextData_with_carrier [OF carrier_bareRequest]
  by (simp add: testTriples_def AddContextData_step_def Header_Add_def bareRequest_def)

lemma written_outboundRequest:
  "writtenAll testTriples outboundRequest =
     outboundRequest
       \<lparr>Header := Some ((\<lambda>k. [])(''X-New-Header'' := [''old'', ''header-value''],
                                 ''Cookie'' := [''a=1; new-cookie=cookie-value''])),
        URL := Some \<lparr>Path = ''/downstream'',
                     RawQuery = [Pair ''a'' ''1'', Pair ''new-query'' ''old'',
                                 Pair ''new-query'' ''query-value'']\<rparr>\<rparr>"
  by (simp add: writtenAll_def testTriples_def written_def Location_distinct canon_x_new_header
      outboundRequest_def cookieLine_def sanitizeCookieName_def sanitizeCookieValue_def
      validCookieValueByte_def Values_Encode_def URL_Query_def List.map_filter_def fun_upd_twist)

section \<open>Further properties\<close>

subsection \<open>empty values\<close>

lemma resolve_not_called:
  "\<not> needsFallback r v \<Longrightarrow> resolve r v w = (inboundValue r v, r, w, False)"
  by (auto simp: needsFallback_def resolve_def Let_def split: option.splits)

lemma resolve_empty_iff:
  "fst (resolve r v w) = '''' \<longleftrightarrow>
     inboundValue r v = '''' \<and>
     (case MissingFunc v of None \<Rightarrow> True | Some f \<Rightarrow> fst (f (OutboundName v) r w) = '''')"
  by (auto simp: resolve_def Let_def split: option.splits prod.splits)

lemma Handler_step_values:
  "fst (Handler_step i v (cv, r, w, calls)) = cv @ produced v (fst (resolve r v w))"
  by (simp add: Handler_step_eq)

lemma Handler_bind_single: "fst (resolve r v w) = '''' \<Longrightarrow> fst (Handler_bind [v] r w) = []"
  by (simp add: Handler_bind_def Handler_step_eq produced_def)

lemma produced_nonempty: "c \<in> set (produced v s) \<Longrightarrow> value c \<noteq> ''''"
  by (auto simp: produced_def split: if_splits)

lemma Handler_bind_values_nonempty:
  assumes "c \<in> set (fst (Handler_bind vals r w))"
  shows "value c \<noteq> ''''"
  using assms unfolding Handler_bind_values by (auto dest: produced_nonempty)

lemma AddContextData_empty_carrier:
  "ctx req = ctx (Handler_request r []) \<Longrightarrow> AddContextData req = Return (None, req)"
  using AddContextData_with_carrier [OF carrier_Handler_request, of req r "[]"] by simp

subsection \<open>two runs\<close>

lemma sameInbound_inboundValue:
  assumes "sameInbound r1 r2"
  shows "inboundValue r1 v = inboundValue r2 v"
proof -
  have h: "Header r1 = Header r2" using assms by (simp add: sameInbound_def)
  have "map_option RawQuery (URL r1) = map_option RawQuery (URL r2)"
    using assms by (simp add: sameInbound_def)
  then have q: "map_option URL_Query (URL r1) = map_option URL_Query (URL r2)"
    by (cases "URL r1"; cases "URL r2") (simp_all add: URL_Query_def)
  have c: "Cookie r1 (InboundName v) = Cookie r2 (InboundName v)"
    by (simp add: Cookie_def h)
  have u: "(case URL r1 of None \<Rightarrow> '''' | Some u \<Rightarrow>
              (let val = Values_Get (URL_Query u) (InboundName v)
               in if val \<noteq> '''' then val else '''')) =
           (case URL r2 of None \<Rightarrow> '''' | Some u \<Rightarrow>
              (let val = Values_Get (URL_Query u) (InboundName v)
               in if val \<noteq> '''' then val else ''''))"
    using q by (cases "URL r1"; cases "URL r2") simp_all
  show ?thesis
    unfolding inboundValue_def h c u ..
qed

lemma sameInbound_needsFallback:
  "sameInbound r1 r2 \<Longrightarrow> needsFallback r1 v = needsFallback r2 v"
  by (simp add: needsFallback_def sameInbound_inboundValue [of r1 r2 v])

lemma resolvedValues_agree:
  assumes "sameInbound r1 r2" and "fallbacksAgree vs r1 w1 r2 w2"
  shows "resolvedValues vs r1 w1 = resolvedValues vs r2 w2"
  using assms
proof (induction vs arbitrary: r1 w1 r2 w2)
  case Nil
  then show ?case by simp
next
  case (Cons v vs)
  obtain s1 r1' w1' c1 where a: "resolve r1 v w1 = (s1, r1', w1', c1)"
    by (cases "resolve r1 v w1") auto
  obtain s2 r2' w2' c2 where b: "resolve r2 v w2 = (s2, r2', w2', c2)"
    by (cases "resolve r2 v w2") auto
  have c: "c1 = needsFallback r1 v" "c2 = needsFallback r2 v"
    using resolve_called [of r1 v w1] resolve_called [of r2 v w2] a b by simp_all
  have nf: "needsFallback r1 v = needsFallback r2 v"
    using Cons.prems(1) by (rule sameInbound_needsFallback)
  have agree: "if c1 \<and> c2 then s1 = s2 \<and> sameInbound r1' r2' else True"
    and rest: "fallbacksAgree vs r1' w1' r2' w2'"
    using Cons.prems(2) by (simp_all add: a b)
  have "s1 = s2 \<and> sameInbound r1' r2'"
  proof (cases c1)
    case True
    then show ?thesis using agree c nf by simp
  next
    case False
    then have "resolve r1 v w1 = (inboundValue r1 v, r1, w1, False)"
      "resolve r2 v w2 = (inboundValue r2 v, r2, w2, False)"
      using c nf by (simp_all add: resolve_not_called)
    then show ?thesis
      using a b Cons.prems(1) sameInbound_inboundValue [OF Cons.prems(1), of v] by simp
  qed
  then show ?case
    using Cons.IH [of r1' r2' w1' w2'] rest by (simp add: a b)
qed

lemma Handler_bind_agree:
  assumes "sameInbound r1 r2" and "fallbacksAgree vals r1 w1 r2 w2"
  shows "fst (Handler_bind vals r1 w1) = fst (Handler_bind vals r2 w2)"
  unfolding Handler_bind_values resolvedValues_agree [OF assms] ..

subsection \<open>where the loop of AddContextData ends\<close>

lemma find_Some_split:
  "find P xs = Some q \<longleftrightarrow> (\<exists>pre post. xs = pre @ q # post \<and> P q \<and> (\<forall>v \<in> set pre. \<not> P v))"
proof (induction xs)
  case Nil
  then show ?case by simp
next
  case (Cons x xs)
  show ?case
  proof (cases "P x")
    case True
    have "(\<exists>pre post. x # xs = pre @ q # post \<and> P q \<and> (\<forall>v \<in> set pre. \<not> P v)) \<longleftrightarrow> x = q"
    proof
      assume "\<exists>pre post. x # xs = pre @ q # post \<and> P q \<and> (\<forall>v \<in> set pre. \<not> P v)"
      then obtain pre post where p: "x # xs = pre @ q # post" "\<forall>v \<in> set pre. \<not> P v"
        by blast
      show "x = q"
      proof (cases pre)
        case Nil
        then show ?thesis using p(1) by simp
      next
        case (Cons y ys)
        then have "x \<in> set pre" using p(1) by simp
        then show ?thesis using p(2) True by blast
      qed
    next
      assume "x = q"
      then have "x # xs = [] @ q # xs \<and> P q \<and> (\<forall>v \<in> set []. \<not> P v)"
        using True by simp
      then show "\<exists>pre post. x # xs = pre @ q # post \<and> P q \<and> (\<forall>v \<in> set pre. \<not> P v)"
        by blast
    qed
    then show ?thesis using True by auto
  next
    case False
    have "(\<exists>pre post. x # xs = pre @ q # post \<and> P q \<and> (\<forall>v \<in> set pre. \<not> P v)) \<longleftrightarrow>
          (\<exists>pre post. xs = pre @ q # post \<and> P q \<and> (\<forall>v \<in> set pre. \<not> P v))"
    proof
      assume "\<exists>pre post. x # xs = pre @ q # post \<and> P q \<and> (\<forall>v \<in> set pre. \<not> P v)"
      then obtain pre post where p: "x # xs = pre @ q # post" "P q" "\<forall>v \<in> set pre. \<not> P v"
        by blast
      show "\<exists>pre post. xs = pre @ q # post \<and> P q \<and> (\<forall>v \<in> set pre. \<not> P v)"
      proof (cases pre)
        case Nil
        then show ?thesis using p False by simp
      next
        case (Cons y ys)
        then have "xs = ys @ q # post \<and> P q \<and> (\<forall>v \<in> set ys. \<not> P v)"
          using p by simp
        then show ?thesis by blast
      qed
    next
      assume "\<exists>pre post. xs = pre @ q # post \<and> P q \<and> (\<forall>v \<in> set pre. \<not> P v)"
      then obtain pre post where p: "xs = pre @ q # post" "P q" "\<forall>v \<in> set pre. \<not> P v"
        by blast
      then have "x # xs = (x # pre) @ q # post \<and> P q \<and> (\<forall>v \<in> set (x # pre). \<not> P v)"
        using False by simp
      then show "\<exists>pre post. x # xs = pre @ q # post \<and> P q \<and> (\<forall>v \<in> set pre. \<not> P v)"
        by blast
    qed
    then show ?thesis using False Cons.IH by simp
  qed
qed

lemma takeWhile_split:
  assumes "\<forall>v \<in> set pre. \<not> P v" and "P q"
  shows "takeWhile (\<lambda>v. \<not> P v) (pre @ q # post) = pre"
  using assms by (induction pre) simp_all

lemma AddContextData_eq:
  "AddContextData req =
     (case carrier req of
        None \<Rightarrow> Return (Some ErrMissingContext, req)
      | Some vals \<Rightarrow>
          (case find (stopsAt req) vals of
             None \<Rightarrow> Return (None, writtenAll vals req)
           | Some q \<Rightarrow>
               if location q = LocationQueryParam
               then Return (Some (errors_New ''request has no URL set''),
                            writtenAll (takeWhile (\<lambda>v. \<not> stopsAt req v) vals) req)
               else Panic))"
proof (cases "carrier req")
  case None
  then show ?thesis by (simp add: AddContextData_no_carrier)
next
  case (Some vals)
  then show ?thesis
    by (simp add: AddContextData_with_carrier [OF Some] AddContextData_range_eq)
qed

lemma AddContextData_error_cases:
  "(\<exists>e req'. AddContextData req = Return (Some e, req')) \<longleftrightarrow>
     carrier req = None \<or>
     (\<exists>vals q. carrier req = Some vals \<and> find (stopsAt req) vals = Some q \<and>
        location q = LocationQueryParam)"
  unfolding AddContextData_eq by (auto split: option.splits)

lemma AddContextData_no_stop:
  assumes "Header req \<noteq> None" and "URL req \<noteq> None"
  shows "find (stopsAt req) vals = None"
  using assms by (simp add: find_None_iff stopsAt_def)

lemma AddContextData_complete:
  assumes "Header req \<noteq> None" and "URL req \<noteq> None"
  shows "AddContextData req =
           (case carrier req of None \<Rightarrow> Return (Some ErrMissingContext, req)
            | Some vals \<Rightarrow> Return (None, writtenAll vals req))"
  unfolding AddContextData_eq
  by (simp add: AddContextData_no_stop [OF assms] split: option.splits)

lemma AddContextData_not_missing:
  assumes "carrier req = Some vals"
  shows "AddContextData req \<noteq> Return (Some ErrMissingContext, req')"
  unfolding AddContextData_eq using assms by (simp split: option.splits)

lemma AddContextData_missing_same:
  assumes "AddContextData req = Return (Some ErrMissingContext, req')"
  shows "carrier req = None \<and> req' = req"
proof (cases "carrier req")
  case None
  then show ?thesis using assms by (simp add: AddContextData_no_carrier)
next
  case (Some vals)
  then show ?thesis using assms AddContextData_not_missing [OF Some] by blast
qed

subsection \<open>NewRequestWithContext\<close>

lemma NewRequestWithContext_result:
  assumes "http_New c m u b = Inr req"
  shows "NewRequestWithContext http_New c m u b =
           (case AddContextData req of
              Panic \<Rightarrow> Panic
            | Return (Some err, req') \<Rightarrow>
                if err \<noteq> ErrMissingContext then Return (Inl err) else Return (Inr req')
            | Return (None, req') \<Rightarrow> Return (Inr req'))"
  using assms
  by (simp add: NewRequestWithContext_def errors_Is_def
      split: outcome.splits prod.splits option.splits)

lemma NewRequestWithContext_failed:
  "http_New c m u b = Inl err \<Longrightarrow> NewRequestWithContext http_New c m u b = Return (Inl err)"
  by (simp add: NewRequestWithContext_def)

lemma fallbacksAgree_no_fallback:
  assumes "\<forall>v \<in> set vs. MissingFunc v = None"
  shows "fallbacksAgree vs r1 w1 r2 w2"
  using assms
proof (induction vs)
  case Nil
  then show ?case by simp
next
  case (Cons v vs)
  have "\<not> needsFallback r1 v" "\<not> needsFallback r2 v"
    using Cons.prems by (simp_all add: needsFallback_def)
  then have "resolve r1 v w1 = (inboundValue r1 v, r1, w1, False)"
    "resolve r2 v w2 = (inboundValue r2 v, r2, w2, False)"
    by (simp_all add: resolve_not_called)
  then show ?case using Cons by simp
qed

lemma outboundAfter_eq: "writtenAll testTriples outboundRequest = outboundAfter"
  unfolding written_outboundRequest by (simp add: outboundRequest_def outboundAfter_def)

lemma carrier_noURLRequest: "carrier noURLRequest = Some cookieFirst"
  by (simp add: carrier_def noURLRequest_def)

lemma find_None_list_ex: "find P xs = None \<longleftrightarrow> \<not> list_ex P xs"
  by (auto simp: find_None_iff list_ex_iff)

lemma takeWhile_no_stop: "\<not> list_ex P xs \<Longrightarrow> takeWhile (\<lambda>v. \<not> P v) xs = xs"
  by (simp add: list_ex_iff)

lemma AddContextData_Header_Some:
  assumes c: "carrier req = Some vals" and h: "Header req = Some m"
  shows "AddContextData req =
           Return (if URL req = None \<and> list_ex (\<lambda>v. location v = LocationQueryParam) vals
                   then Some (errors_New ''request has no URL set'') else None,
                   writtenAll (if URL req = None
                               then takeWhile (\<lambda>v. location v \<noteq> LocationQueryParam) vals
                               else vals) req)"
proof (cases "URL req")
  case (Some u)
  then have "find (stopsAt req) vals = None"
    using h by (intro AddContextData_no_stop) simp_all
  then show ?thesis
    using Some c by (simp add: AddContextData_eq)
next
  case None
  have st: "stopsAt req = (\<lambda>v. location v = LocationQueryParam)"
    using None h by (simp add: fun_eq_iff stopsAt_def)
  show ?thesis
  proof (cases "list_ex (\<lambda>v. location v = LocationQueryParam) vals")
    case True
    then obtain q where q: "find (stopsAt req) vals = Some q"
      unfolding st using find_None_list_ex [of "\<lambda>v. location v = LocationQueryParam" vals]
      by (cases "find (\<lambda>v. location v = LocationQueryParam) vals") auto
    then have "location q = LocationQueryParam"
      unfolding st by (auto simp: find_Some_iff)
    then show ?thesis
      using None c True q by (simp add: AddContextData_eq st)
  next
    case False
    then have "find (stopsAt req) vals = None"
      unfolding st by (simp add: find_None_list_ex)
    then show ?thesis
      using None c False by (simp add: AddContextData_eq takeWhile_no_stop)
  qed
qed

lemma noURLAfter_eq:
  "writtenAll (takeWhile (\<lambda>x. location x \<noteq> LocationQueryParam) cookieFirst) noURLRequest =
     noURLAfter"
  by (simp add: writtenAll_def cookieFirst_def written_def Location_distinct canon_x_new_header
      noURLRequest_def noURLAfter_def cookieLine_def sanitizeCookieName_def
      sanitizeCookieValue_def validCookieValueByte_def fun_upd_twist LocationHeader_def
      LocationCookie_def LocationQueryParam_def)

lemma first_query_split:
  assumes "v \<in> set vals" and "location v = LocationQueryParam"
  shows "\<exists>q post. vals = takeWhile (\<lambda>x. location x \<noteq> LocationQueryParam) vals @ q # post \<and>
           location q = LocationQueryParam"
proof -
  let ?P = "\<lambda>x. location x \<noteq> LocationQueryParam"
  have ne: "dropWhile ?P vals \<noteq> []"
    using assms by (auto simp: dropWhile_eq_Nil_conv)
  then obtain q post where d: "dropWhile ?P vals = q # post"
    by (cases "dropWhile ?P vals") auto
  have "\<not> ?P (hd (dropWhile ?P vals))"
    using ne by (rule hd_dropWhile)
  then have "location q = LocationQueryParam"
    using d by simp
  moreover have "vals = takeWhile ?P vals @ q # post"
    using takeWhile_dropWhile_id [of ?P vals] d by simp
  ultimately show ?thesis by blast
qed

lemma no_URL_reached:
  assumes u: "URL req = None" and v: "v \<in> set vals" "location v = LocationQueryParam"
    and reach: "Header req \<noteq> None \<or>
      (\<forall>x \<in> set (takeWhile (\<lambda>x. location x \<noteq> LocationQueryParam) vals).
         location x \<noteq> LocationHeader \<and> location x \<noteq> LocationCookie)"
  shows "\<exists>q. find (stopsAt req) vals = Some q \<and> location q = LocationQueryParam"
    and "takeWhile (\<lambda>x. \<not> stopsAt req x) vals =
           takeWhile (\<lambda>x. location x \<noteq> LocationQueryParam) vals"
proof -
  let ?pre = "takeWhile (\<lambda>x. location x \<noteq> LocationQueryParam) vals"
  obtain q post where s: "vals = ?pre @ q # post" and q: "location q = LocationQueryParam"
    using first_query_split [OF v] by blast
  have pre: "\<forall>x \<in> set ?pre. \<not> stopsAt req x"
  proof
    fix x assume x: "x \<in> set ?pre"
    then have "location x \<noteq> LocationQueryParam"
      by (rule set_takeWhileD [THEN conjunct2])
    then show "\<not> stopsAt req x"
      using reach x by (auto simp: stopsAt_def)
  qed
  have stop: "stopsAt req q"
    using q u by (simp add: stopsAt_def)
  have "find (stopsAt req) vals = Some q"
    unfolding find_Some_split using s stop pre by blast
  then show "\<exists>q. find (stopsAt req) vals = Some q \<and> location q = LocationQueryParam"
    using q by simp
  have "takeWhile (\<lambda>x. \<not> stopsAt req x) (?pre @ q # post) = ?pre"
    using pre stop by (rule takeWhile_split)
  then show "takeWhile (\<lambda>x. \<not> stopsAt req x) vals = ?pre"
    using s by simp
qed



section \<open>The claims about Handler\<close>

text \<open>
  C1 as stated does not hold. A fallback is given \<^verbatim>\<open>*r\<close>, a copy of the request struct
  that has the request's header map. With two rules that read the headers
  \<^verbatim>\<open>x-tracking-id\<close> and \<^verbatim>\<open>x-session\<close>, both with a fallback, and an inbound request that
  has neither header, the fallback of the first rule sets \<^verbatim>\<open>X-Session\<close> in that map. The
  second rule's inbound value is absent from the inbound request and its fallback is
  configured, yet the pass reads the header that the first fallback wrote and does not
  call the second fallback: only rule 0 has a call.
\<close>

theorem Handler_MissingFunc_skipped:
  "inboundValue plainRequest (sharingVals ! 1) = '''' \<and>
   MissingFunc (sharingVals ! 1) = Some missingFunc \<and>
   snd (snd (snd (Handler_bind sharingVals plainRequest 0))) = [0] \<and>
   count_list (snd (snd (snd (Handler_bind sharingVals plainRequest 0)))) 1 = 0 \<and>
   fst (Handler_bind sharingVals plainRequest 0) =
     [\<lparr>location = LocationHeader, name = ''x-tracking-id'', value = ''t1''\<rparr>,
      \<lparr>location = LocationHeader, name = ''x-session'', value = ''s1''\<rparr>]"
  by (simp add: bind_sharingVals)
     (simp add: sharingVals_def plainRequest_def inboundValue_def Header_Get_def)

text \<open>
  C1, amended. In a binding pass that ends with the calls \<open>calls\<close>, the fallback of the
  rule at index \<open>i\<close> is called exactly once if, when the pass gets to that rule, the
  request has no value or an empty one for the rule's inbound field and the rule's
  \<^verbatim>\<open>MissingFunc\<close> is not nil, and is not called otherwise; \<open>stateAt vals r w i\<close> is the
  request and the fallbacks' state at that moment. When no fallback changes the header
  map or the URL of the request, the request is then the inbound request as it was
  received. A non-empty result of the call is the value of a triple of the carrier.
  \<^verbatim>\<open>AddContextData\<close> on a request with the context that \<^verbatim>\<open>Handler\<close> made is the loop that
  writes the stored triples: it is given neither the rules nor their fallbacks. The
  handler passes the request with the carrier and the state to the next handler.
\<close>

theorem Handler_MissingFunc_once:
  assumes bind: "Handler_bind vals r w = (ctxValues, r', w', calls)"
  shows "(\<forall>i. count_list calls i =
            (if i < length vals \<and> inboundValue (fst (stateAt vals r w i)) (vals ! i) = '''' \<and>
                MissingFunc (vals ! i) \<noteq> None
             then 1 else 0)) \<and>
         ((\<forall>v \<in> set vals. case MissingFunc v of None \<Rightarrow> True
             | Some f \<Rightarrow> \<forall>n rq x. (case f n rq x of (s, m, u, x') \<Rightarrow> afterCall rq m u = rq)) \<longrightarrow>
          r' = r \<and>
          (\<forall>i. fst (stateAt vals r w i) = r) \<and>
          (\<forall>i. count_list calls i =
             (if i < length vals \<and> inboundValue r (vals ! i) = '''' \<and>
                 MissingFunc (vals ! i) \<noteq> None
              then 1 else 0))) \<and>
         (\<forall>i f s m u x.
            i < length vals \<and>
            inboundValue (fst (stateAt vals r w i)) (vals ! i) = '''' \<and>
            MissingFunc (vals ! i) = Some f \<and>
            f (OutboundName (vals ! i)) (fst (stateAt vals r w i)) (snd (stateAt vals r w i)) =
              (s, m, u, x) \<and>
            s \<noteq> '''' \<longrightarrow>
            \<lparr>location = OutboundLocation (vals ! i), name = OutboundName (vals ! i), value = s\<rparr>
              \<in> set ctxValues) \<and>
         (\<forall>req. ctx req = ctx (Handler_request r' ctxValues) \<longrightarrow>
            AddContextData req = AddContextData_range ctxValues req) \<and>
         Handler next options vals r w = (next (Handler_request r' ctxValues) w', calls)"
proof (intro conjI allI impI)
  fix i
  show "count_list calls i =
          (if i < length vals \<and> inboundValue (fst (stateAt vals r w i)) (vals ! i) = '''' \<and>
              MissingFunc (vals ! i) \<noteq> None
           then 1 else 0)"
    using Handler_bind_count [OF bind, of i] by (simp add: needsFallback_def)
next
  assume kept: "\<forall>v \<in> set vals. case MissingFunc v of None \<Rightarrow> True
             | Some f \<Rightarrow> \<forall>n rq x. (case f n rq x of (s, m, u, x') \<Rightarrow> afterCall rq m u = rq)"
  have "fst (snd (Handler_range 0 vals ([], r, w, []))) = r"
    using kept by (intro Handler_range_request_kept) blast
  then show "r' = r"
    using bind by (simp add: Handler_bind_def)
next
  fix i
  assume kept: "\<forall>v \<in> set vals. case MissingFunc v of None \<Rightarrow> True
             | Some f \<Rightarrow> \<forall>n rq x. (case f n rq x of (s, m, u, x') \<Rightarrow> afterCall rq m u = rq)"
  show "fst (stateAt vals r w i) = r"
    using kept by (intro stateAt_request_kept) blast
next
  fix i
  assume kept: "\<forall>v \<in> set vals. case MissingFunc v of None \<Rightarrow> True
             | Some f \<Rightarrow> \<forall>n rq x. (case f n rq x of (s, m, u, x') \<Rightarrow> afterCall rq m u = rq)"
  have "fst (stateAt vals r w i) = r"
    using kept by (intro stateAt_request_kept) blast
  then show "count_list calls i =
          (if i < length vals \<and> inboundValue r (vals ! i) = '''' \<and> MissingFunc (vals ! i) \<noteq> None
           then 1 else 0)"
    using Handler_bind_count [OF bind, of i] by (simp add: needsFallback_def)
next
  fix i f s m u x
  assume a: "i < length vals \<and>
            inboundValue (fst (stateAt vals r w i)) (vals ! i) = '''' \<and>
            MissingFunc (vals ! i) = Some f \<and>
            f (OutboundName (vals ! i)) (fst (stateAt vals r w i)) (snd (stateAt vals r w i)) =
              (s, m, u, x) \<and>
            s \<noteq> ''''"
  have at: "stateAt vals r w i = (fst (stateAt vals r w i), snd (stateAt vals r w i))"
    by simp
  from a have i: "i < length vals"
    and absent: "inboundValue (fst (stateAt vals r w i)) (vals ! i) = ''''"
    and f: "MissingFunc (vals ! i) = Some f"
    and res: "f (OutboundName (vals ! i)) (fst (stateAt vals r w i)) (snd (stateAt vals r w i)) =
                (s, m, u, x)"
    and s: "s \<noteq> ''''"
    by simp_all
  show "\<lparr>location = OutboundLocation (vals ! i), name = OutboundName (vals ! i), value = s\<rparr>
          \<in> set ctxValues"
    using bind i at absent f res s by (rule fallback_result_kept)
next
  fix req :: Request
  assume "ctx req = ctx (Handler_request r' ctxValues)"
  then have "carrier req = Some ctxValues" by (rule carrier_Handler_request)
  then show "AddContextData req = AddContextData_range ctxValues req"
    by (rule AddContextData_with_carrier)
next
  show "Handler next options vals r w = (next (Handler_request r' ctxValues) w', calls)"
    by (simp add: Handler_def bind)
qed

theorem Handler_MissingFunc_once_witness:
  "Handler_bind missingVals plainRequest 0 =
     ([\<lparr>location = LocationHeader, name = ''x-header'', value = ''blah''\<rparr>], plainRequest, 1, [0]) \<and>
   inboundValue plainRequest (missingVals ! 0) = '''' \<and>
   MissingFunc (missingVals ! 0) = Some missingFunc \<and>
   missingFunc ''x-header'' plainRequest 0 = (''blah'', headerOf plainRequest, urlOf plainRequest, 1) \<and>
   afterCall plainRequest (headerOf plainRequest) (urlOf plainRequest) = plainRequest \<and>
   fst (stateAt missingVals plainRequest 0 0) = plainRequest \<and>
   count_list [0 :: nat] 0 = (1 :: nat) \<and>
   count_list [0 :: nat] 1 = (0 :: nat) \<and>
   \<lparr>location = LocationHeader, name = ''x-header'', value = ''blah''\<rparr>
     \<in> set [\<lparr>location = LocationHeader, name = ''x-header'', value = ''blah''\<rparr>] \<and>
   Handler (\<lambda>rq x. x) Options missingVals plainRequest 0 = (1, [0]) \<and>
   Handler_bind missingVals testRequest 0 =
     ([\<lparr>location = LocationHeader, name = ''x-header'', value = ''header-value''\<rparr>],
      testRequest, 0, []) \<and>
   inboundValue testRequest (missingVals ! 0) = ''header-value'' \<and>
   count_list ([] :: nat list) 0 = (0 :: nat) \<and>
   Handler (\<lambda>rq x. x) Options missingVals testRequest 0 = (0, [])"
proof -
  have iv: "inboundValue plainRequest (missingVals ! 0) = ''''"
    "MissingFunc (missingVals ! 0) = Some missingFunc"
    by (simp_all add: missingVals_def plainRequest_def inboundValue_def Header_Get_def)
  have at: "fst (stateAt missingVals plainRequest 0 0) = plainRequest"
    by (simp add: stateAt_def Handler_bind_def)
  have mf: "missingFunc ''x-header'' plainRequest 0 =
              (''blah'', headerOf plainRequest, urlOf plainRequest, 1)"
    by (simp add: missingFunc_def)
  have pv: "inboundValue testRequest (missingVals ! 0) = ''header-value''"
    by (simp add: missingVals_def testRequest_def inboundValue_def Header_Get_def canon_x_header)
  have hp: "Handler (\<lambda>rq x. x) Options missingVals testRequest 0 = (0, [])"
    using Handler_MissingFunc_once [OF bind_missingVals_present, of "\<lambda>rq x. x" Options]
    by simp
  show ?thesis
    using Handler_MissingFunc_once [OF bind_missingVals, of "\<lambda>rq x. x" Options] iv at mf pv hp
    by (simp add: bind_missingVals bind_missingVals_present afterCall_same)
qed

text \<open>
  C2. The carrier that the binding pass builds is the concatenation, in the order of the
  rules, of what each rule produces: nothing when the value resolved for the rule is
  empty, and otherwise the one triple of the rule's outbound location and name with
  that value. The value resolved for the rule at index \<open>i\<close> is the one that lines 93 to
  115 give in the request and state that the pass has reached there. So each rule gives
  at most one triple, the triples are in the order of their rules, and the carrier is
  no longer than the rule list.
\<close>

theorem Handler_bind_order:
  "fst (Handler_bind vals r w) =
     concat (map (\<lambda>(v, s). produced v s) (zip vals (resolvedValues vals r w))) \<and>
   length (resolvedValues vals r w) = length vals \<and>
   (\<forall>i < length vals.
      resolvedValues vals r w ! i =
        fst (resolve (fst (stateAt vals r w i)) (vals ! i) (snd (stateAt vals r w i)))) \<and>
   (\<forall>v \<in> set vals. \<forall>s. length (produced v s) \<le> 1) \<and>
   length (fst (Handler_bind vals r w)) \<le> length vals"
proof (intro conjI allI impI ballI)
  show "fst (Handler_bind vals r w) =
          concat (map (\<lambda>(v, s). produced v s) (zip vals (resolvedValues vals r w)))"
    by (rule Handler_bind_values)
next
  show "length (resolvedValues vals r w) = length vals"
    by (rule length_resolvedValues)
next
  fix i assume "i < length vals"
  then show "resolvedValues vals r w ! i =
          fst (resolve (fst (stateAt vals r w i)) (vals ! i) (snd (stateAt vals r w i)))"
    by (rule resolvedValues_nth)
next
  fix v s assume "v \<in> set vals"
  show "length (produced v s) \<le> 1" by (rule length_produced)
next
  have "length (fst (Handler_bind vals r w)) \<le> length (zip vals (resolvedValues vals r w))"
    unfolding Handler_bind_values by (rule length_concat_produced)
  then show "length (fst (Handler_bind vals r w)) \<le> length vals"
    by (simp add: length_resolvedValues)
qed

theorem Handler_bind_order_witness:
  "fst (Handler_bind trackValues (testRequest\<lparr>URL := None\<rparr>) 0) =
     [\<lparr>location = LocationHeader, name = ''x-new-header'', value = ''header-value''\<rparr>,
      \<lparr>location = LocationCookie, name = ''new-cookie'', value = ''cookie-value''\<rparr>] \<and>
   resolvedValues trackValues (testRequest\<lparr>URL := None\<rparr>) 0 =
     [''header-value'', '''', ''cookie-value''] \<and>
   (1 :: nat) < length trackValues \<and>
   fst (resolve (fst (stateAt trackValues (testRequest\<lparr>URL := None\<rparr>) 0 1)) (trackValues ! 1)
          (snd (stateAt trackValues (testRequest\<lparr>URL := None\<rparr>) 0 1))) = '''' \<and>
   length (fst (Handler_bind trackValues (testRequest\<lparr>URL := None\<rparr>) 0)) = 2 \<and>
   length trackValues = 3"
proof -
  have rv: "resolvedValues trackValues (testRequest\<lparr>URL := None\<rparr>) 0 =
              [''header-value'', '''', ''cookie-value'']"
    by (simp add: trackValues_def testRequest_def resolve_def inboundValue_def Header_Get_def
        canon_x_header cookie_defs LocationHeader_def LocationCookie_def LocationQueryParam_def)
  have len: "(1 :: nat) < length trackValues" "length trackValues = 3"
    by (simp_all add: trackValues_def)
  have pr: "concat (map (\<lambda>(v, s). produced v s)
              (zip trackValues [''header-value'', '''', ''cookie-value''])) =
            [\<lparr>location = LocationHeader, name = ''x-new-header'', value = ''header-value''\<rparr>,
             \<lparr>location = LocationCookie, name = ''new-cookie'', value = ''cookie-value''\<rparr>]"
    by (simp add: trackValues_def produced_def)
  note t = Handler_bind_order [of trackValues "testRequest\<lparr>URL := None\<rparr>" 0]
  have at: "resolvedValues trackValues (testRequest\<lparr>URL := None\<rparr>) 0 ! 1 =
              fst (resolve (fst (stateAt trackValues (testRequest\<lparr>URL := None\<rparr>) 0 1))
                     (trackValues ! 1)
                     (snd (stateAt trackValues (testRequest\<lparr>URL := None\<rparr>) 0 1)))"
    using t [THEN conjunct2, THEN conjunct2, THEN conjunct1, rule_format, of 1] len(1) .
  have v: "fst (Handler_bind trackValues (testRequest\<lparr>URL := None\<rparr>) 0) =
     [\<lparr>location = LocationHeader, name = ''x-new-header'', value = ''header-value''\<rparr>,
      \<lparr>location = LocationCookie, name = ''new-cookie'', value = ''cookie-value''\<rparr>]"
    using t [THEN conjunct1] by (simp add: rv pr)
  show ?thesis
    using at v rv len by simp
qed

text \<open>
  C3. A rule whose resolved value is the empty string gives no triple. The resolved
  value is empty exactly when the inbound value is absent or empty and either there is
  no fallback or the fallback returns the empty string. The iteration for such a rule
  leaves \<^verbatim>\<open>ctxValues\<close> as it was, and it has no error to return. No triple of a carrier
  has an empty value; and with that rule as the only one, the carrier is empty and
  \<^verbatim>\<open>AddContextData\<close> returns nil and leaves the outbound request as it was.
\<close>

theorem Handler_empty_value_skipped:
  "(\<forall>c \<in> set (fst (Handler_bind vals r w)). value c \<noteq> '''') \<and>
   (fst (resolve r v w1) = '''' \<longleftrightarrow>
      inboundValue r v = '''' \<and>
      (case MissingFunc v of None \<Rightarrow> True | Some f \<Rightarrow> fst (f (OutboundName v) r w1) = '''')) \<and>
   (fst (resolve r v w1) = '''' \<longrightarrow>
      fst (Handler_step i v (cv, r, w1, calls)) = cv \<and>
      fst (Handler_bind [v] r w1) = [] \<and>
      (\<forall>req. ctx req =
               ctx (Handler_request (fst (snd (Handler_bind [v] r w1))) (fst (Handler_bind [v] r w1))) \<longrightarrow>
         AddContextData req = Return (None, req)))"
proof (intro conjI ballI allI impI)
  fix c assume "c \<in> set (fst (Handler_bind vals r w))"
  then show "value c \<noteq> ''''" by (rule Handler_bind_values_nonempty)
next
  show "fst (resolve r v w1) = '''' \<longleftrightarrow>
      inboundValue r v = '''' \<and>
      (case MissingFunc v of None \<Rightarrow> True | Some f \<Rightarrow> fst (f (OutboundName v) r w1) = '''')"
    by (rule resolve_empty_iff)
next
  assume "fst (resolve r v w1) = ''''"
  then show "fst (Handler_step i v (cv, r, w1, calls)) = cv"
    by (simp add: Handler_step_values produced_def)
next
  assume "fst (resolve r v w1) = ''''"
  then show "fst (Handler_bind [v] r w1) = []" by (rule Handler_bind_single)
next
  fix req :: Request
  assume "fst (resolve r v w1) = ''''"
    and "ctx req =
           ctx (Handler_request (fst (snd (Handler_bind [v] r w1))) (fst (Handler_bind [v] r w1)))"
  then show "AddContextData req = Return (None, req)"
    using AddContextData_empty_carrier [of req "fst (snd (Handler_bind [v] r w1))"]
    by (simp add: Handler_bind_single)
qed

theorem Handler_empty_value_skipped_witness:
  "inboundValue plainRequest (trackValues ! 0) = '''' \<and>
   MissingFunc (trackValues ! 0) = None \<and>
   fst (resolve plainRequest (trackValues ! 0) 0) = '''' \<and>
   fst (Handler_step 0 (trackValues ! 0) ([], plainRequest, 0, [])) = [] \<and>
   fst (Handler_bind [trackValues ! 0] plainRequest 0) = [] \<and>
   ctx (outboundRequest\<lparr>ctx := WithValue Background (ctxDataName ''httptrack'') (ctxData [])\<rparr>) =
     ctx (Handler_request (fst (snd (Handler_bind [trackValues ! 0] plainRequest 0)))
            (fst (Handler_bind [trackValues ! 0] plainRequest 0))) \<and>
   AddContextData
     (outboundRequest\<lparr>ctx := WithValue Background (ctxDataName ''httptrack'') (ctxData [])\<rparr>) =
   Return (None,
     outboundRequest\<lparr>ctx := WithValue Background (ctxDataName ''httptrack'') (ctxData [])\<rparr>)"
proof -
  have iv: "inboundValue plainRequest (trackValues ! 0) = ''''"
    "MissingFunc (trackValues ! 0) = None"
    by (simp_all add: trackValues_def plainRequest_def inboundValue_def Header_Get_def)
  then have res: "fst (resolve plainRequest (trackValues ! 0) 0) = ''''"
    by (simp add: resolve_def)
  have b: "Handler_bind [trackValues ! 0] plainRequest 0 = ([], plainRequest, 0, [])"
    using iv by (simp add: Handler_bind_def Handler_step_def resolve_def)
  have c: "ctx (outboundRequest\<lparr>ctx := WithValue Background (ctxDataName ''httptrack'') (ctxData [])\<rparr>) =
     ctx (Handler_request (fst (snd (Handler_bind [trackValues ! 0] plainRequest 0)))
            (fst (Handler_bind [trackValues ! 0] plainRequest 0)))"
    by (simp add: b Handler_request_def) (simp add: plainRequest_def)
  show ?thesis
    using Handler_empty_value_skipped [of "[trackValues ! 0]" plainRequest 0 "trackValues ! 0" 0
        0 "[]" "[]"] iv res c
    by simp
qed

text \<open>
  C8 as stated does not hold. A fallback may have state of its own: with a fallback
  that generates tracking IDs, two runs of the binding pass with the same rules on the
  same request, the second in the state that the first left, give different carriers.
\<close>

theorem Handler_bind_not_deterministic:
  "fst (Handler_bind generatedVals plainRequest 0) \<noteq>
   fst (Handler_bind generatedVals plainRequest
          (fst (snd (snd (Handler_bind generatedVals plainRequest 0)))))"
  by (simp add: generatedVals_def plainRequest_def bind_defs newTrackingID_def
      canon_x_tracking_id)

text \<open>
  C8, amended. Two runs of the binding pass with the same rules, on requests with the
  same header map and the same query, hence the same cookies, give the same carrier,
  whatever the states of the fallback functions in the two runs, provided the runs
  agree at every rule whose fallback they call: the two calls return the same string
  and leave the request with the same header map and query. That is so in particular
  when no rule has a fallback.
\<close>

theorem Handler_bind_deterministic:
  "(sameInbound r1 r2 \<and> fallbacksAgree vals r1 w1 r2 w2 \<longrightarrow>
      fst (Handler_bind vals r1 w1) = fst (Handler_bind vals r2 w2)) \<and>
   (sameInbound r1 r2 \<and> (\<forall>v \<in> set vals. MissingFunc v = None) \<longrightarrow>
      fst (Handler_bind vals r1 w1) = fst (Handler_bind vals r2 w2))"
proof (intro conjI impI)
  assume "sameInbound r1 r2 \<and> fallbacksAgree vals r1 w1 r2 w2"
  then show "fst (Handler_bind vals r1 w1) = fst (Handler_bind vals r2 w2)"
    by (intro Handler_bind_agree) simp_all
next
  assume a: "sameInbound r1 r2 \<and> (\<forall>v \<in> set vals. MissingFunc v = None)"
  then have "fallbacksAgree vals r1 w1 r2 w2"
    by (intro fallbacksAgree_no_fallback) simp
  then show "fst (Handler_bind vals r1 w1) = fst (Handler_bind vals r2 w2)"
    using a by (intro Handler_bind_agree) simp_all
qed

theorem Handler_bind_deterministic_witness:
  "sameInbound plainRequest (plainRequest\<lparr>Method := ''POST''\<rparr>) \<and>
   fallbacksAgree generatedVals plainRequest 4 (plainRequest\<lparr>Method := ''POST''\<rparr>) 4 \<and>
   fst (Handler_bind generatedVals plainRequest 4) =
     fst (Handler_bind generatedVals (plainRequest\<lparr>Method := ''POST''\<rparr>) 4) \<and>
   fst (Handler_bind generatedVals plainRequest 4) =
     [\<lparr>location = LocationHeader, name = ''x-tracking-id'', value = ''id++++''\<rparr>] \<and>
   fallbacksAgree missingVals plainRequest 0 (plainRequest\<lparr>Method := ''POST''\<rparr>) 7 \<and>
   fst (Handler_bind missingVals plainRequest 0) =
     fst (Handler_bind missingVals (plainRequest\<lparr>Method := ''POST''\<rparr>) 7)"
proof -
  have s: "sameInbound plainRequest (plainRequest\<lparr>Method := ''POST''\<rparr>)"
    by (simp add: sameInbound_def)
  have g: "fallbacksAgree generatedVals plainRequest 4 (plainRequest\<lparr>Method := ''POST''\<rparr>) 4"
    by (simp add: generatedVals_def plainRequest_def resolve_def inboundValue_def Header_Get_def
        newTrackingID_def sameInbound_def afterCall_def headerOf_def urlOf_def)
  have m: "fallbacksAgree missingVals plainRequest 0 (plainRequest\<lparr>Method := ''POST''\<rparr>) 7"
    by (simp add: missingVals_def plainRequest_def resolve_def inboundValue_def Header_Get_def
        missingFunc_def sameInbound_def afterCall_def headerOf_def urlOf_def)
  have v: "fst (Handler_bind generatedVals plainRequest 4) =
     [\<lparr>location = LocationHeader, name = ''x-tracking-id'', value = ''id++++''\<rparr>]"
    by (simp add: generatedVals_def plainRequest_def bind_defs newTrackingID_def
        canon_x_tracking_id eval_nat_numeral)
  show ?thesis
    using Handler_bind_deterministic [of plainRequest "plainRequest\<lparr>Method := ''POST''\<rparr>"
        generatedVals 4 4]
      Handler_bind_deterministic [of plainRequest "plainRequest\<lparr>Method := ''POST''\<rparr>"
        missingVals 0 7] s g m v
    by simp
qed

section \<open>The claims about AddContextData and NewRequestWithContext\<close>

text \<open>
  C4. On a request whose context holds no carrier, \<^verbatim>\<open>AddContextData\<close> returns
  \<^verbatim>\<open>ErrMissingContext\<close> and the request is left exactly as it was.
\<close>

theorem AddContextData_missing_context:
  assumes "carrier req = None"
  shows "AddContextData req = Return (Some ErrMissingContext, req)"
  using assms by (rule AddContextData_no_carrier)

theorem AddContextData_missing_context_witness:
  "carrier plainRequest = None \<and>
   AddContextData plainRequest = Return (Some ErrMissingContext, plainRequest)"
  using AddContextData_missing_context [of plainRequest] carrier_plainRequest by simp

text \<open>
  C5 as stated does not hold. The outbound request has two \<^verbatim>\<open>Cookie\<close> header lines,
  \<^verbatim>\<open>a=1\<close> and \<^verbatim>\<open>b=2\<close>, and the carrier has a cookie triple. \<^verbatim>\<open>AddCookie\<close> takes the first
  line only and sets the header to one line, so the cookie \<^verbatim>\<open>b\<close>, which
  \<^verbatim>\<open>Request.Cookie\<close> found before the call, is gone after it. The
  segment of the raw query that \<^verbatim>\<open>URL.Query()\<close> cannot parse is gone as well.
\<close>

theorem AddContextData_removes_cookie:
  "carrier outboundRequest = Some testTriples \<and>
   Cookie outboundRequest ''b'' = Inr (''b'', ''2'') \<and>
   AddContextData outboundRequest = Return (None, outboundAfter) \<and>
   Cookie outboundAfter ''b'' = Inl ErrNoCookie \<and>
   map_option (\<lambda>m. m ''Cookie'') (Header outboundRequest) = Some [''a=1'', ''b=2''] \<and>
   map_option (\<lambda>m. m ''Cookie'') (Header outboundAfter) = Some [''a=1; new-cookie=cookie-value''] \<and>
   map_option RawQuery (URL outboundRequest) =
     Some [Pair ''new-query'' ''old'', Unparsable ''x;y'', Pair ''a'' ''1''] \<and>
   map_option RawQuery (URL outboundAfter) =
     Some [Pair ''a'' ''1'', Pair ''new-query'' ''old'', Pair ''new-query'' ''query-value'']"
proof -
  have "find (stopsAt outboundRequest) testTriples = None"
    by (intro AddContextData_no_stop) (simp_all add: outboundRequest_def)
  then have "AddContextData outboundRequest = Return (None, outboundAfter)"
    by (simp add: AddContextData_eq carrier_outboundRequest outboundAfter_eq)
  moreover have "Cookie outboundRequest ''b'' = Inr (''b'', ''2'')"
    by (simp add: outboundRequest_def cookie_defs)
  moreover have "Cookie outboundAfter ''b'' = Inl ErrNoCookie"
    by (simp add: outboundAfter_def cookie_defs)
  ultimately show ?thesis
    by (simp add: carrier_outboundRequest) (simp add: outboundRequest_def outboundAfter_def)
qed

text \<open>
  C5, amended. On a request whose context holds a carrier and whose \<^verbatim>\<open>Header\<close> map is not
  nil, \<^verbatim>\<open>AddContextData\<close> returns, and leaves the request with the triples \<open>wr\<close> written
  one after the other in the order of the carrier: all of them, and nil is returned,
  unless the request has no URL; then those before the first query-parameter triple,
  and the error is returned if there is such a triple. Written means: a header triple
  is appended to the values of its canonical key; a cookie triple sets the \<^verbatim>\<open>Cookie\<close>
  header to one line, the first line it had, if not empty, followed by the sanitised
  \<^verbatim>\<open>name=value\<close>; a query-parameter triple is appended to the parsed query, which is
  encoded again, sorted by key. So the values of a header key are kept and those
  written for it come after them (for the key \<^verbatim>\<open>Cookie\<close> when no cookie triple is
  written); a first \<^verbatim>\<open>Cookie\<close> line that is not empty stays the beginning of the first
  line; the parsed values of a query key are kept and those written for it come after
  them; method, remote address, context and path do not change. With a carrier of no
  triples nil is returned and the request is as it was, whatever its \<^verbatim>\<open>Header\<close> map.
\<close>

theorem AddContextData_appends:
  assumes "carrier req = Some vals"
  shows "(vals = [] \<longrightarrow> AddContextData req = Return (None, req)) \<and>
         (Header req = Some m \<and>
          wr = (if URL req = None
                then takeWhile (\<lambda>v. location v \<noteq> LocationQueryParam) vals else vals) \<longrightarrow>
            AddContextData req =
              Return (if URL req = None \<and> list_ex (\<lambda>v. location v = LocationQueryParam) vals
                      then Some (errors_New ''request has no URL set'') else None,
                      writtenAll wr req) \<and>
            prefix wr vals \<and>
            (\<forall>k. k \<noteq> ''Cookie'' \<or> \<not> hasCookieTriple wr \<longrightarrow>
               map_option (\<lambda>h. h k) (Header (writtenAll wr req)) = Some (m k @ headerWrites wr k)) \<and>
            (\<forall>p v s. wr = p @ v # s \<and> location v = LocationCookie \<longrightarrow>
               (\<exists>mp. Header (writtenAll p req) = Some mp \<and>
                     Header (writtenAll (p @ [v]) req) =
                       Some (mp(''Cookie'' := [cookieLine mp v])))) \<and>
            (\<forall>c rest. m ''Cookie'' = c # rest \<and> c \<noteq> '''' \<longrightarrow>
               (\<exists>m' c' rest'. Header (writtenAll wr req) = Some m' \<and>
                  m' ''Cookie'' = c' # rest' \<and> prefix c c')) \<and>
            URL (writtenAll wr req) =
              (if queryPairs wr = [] then URL req
               else map_option
                      (\<lambda>u. u\<lparr>RawQuery := Values_Encode (URL_Query u @ queryPairs wr)\<rparr>) (URL req)) \<and>
            (\<forall>k. map_option (\<lambda>u. queryValues u k) (URL (writtenAll wr req)) =
                 map_option (\<lambda>u. queryValues u k @ queryWrites wr k) (URL req)) \<and>
            map_option Path (URL (writtenAll wr req)) = map_option Path (URL req) \<and>
            Method (writtenAll wr req) = Method req \<and>
            RemoteAddr (writtenAll wr req) = RemoteAddr req \<and>
            ctx (writtenAll wr req) = ctx req)"
    (is "?A \<and> (?H \<longrightarrow> ?C)")
proof (rule conjI)
  show ?A
    using AddContextData_with_carrier [OF assms] by simp
next
  show "?H \<longrightarrow> ?C"
  proof (rule impI)
    assume a: ?H
    then have h: "Header req = Some m"
      and wr: "wr = (if URL req = None
                     then takeWhile (\<lambda>v. location v \<noteq> LocationQueryParam) vals else vals)"
      by simp_all
    have 1: "AddContextData req =
                Return (if URL req = None \<and> list_ex (\<lambda>v. location v = LocationQueryParam) vals
                        then Some (errors_New ''request has no URL set'') else None,
                        writtenAll wr req)"
      unfolding wr using assms h by (rule AddContextData_Header_Some)
    have 2: "prefix wr vals"
      unfolding wr by (simp add: takeWhile_is_prefix)
    have 3: "\<forall>k. k \<noteq> ''Cookie'' \<or> \<not> hasCookieTriple wr \<longrightarrow>
                 map_option (\<lambda>h. h k) (Header (writtenAll wr req)) = Some (m k @ headerWrites wr k)"
      using writtenAll_header [of _ wr req] h by simp
    have 4: "\<forall>p v s. wr = p @ v # s \<and> location v = LocationCookie \<longrightarrow>
                 (\<exists>mp. Header (writtenAll p req) = Some mp \<and>
                       Header (writtenAll (p @ [v]) req) =
                         Some (mp(''Cookie'' := [cookieLine mp v])))"
      using writtenAll_cookie_step [OF h] by blast
    have 5: "\<forall>c rest. m ''Cookie'' = c # rest \<and> c \<noteq> '''' \<longrightarrow>
                 (\<exists>m' c' rest'. Header (writtenAll wr req) = Some m' \<and>
                    m' ''Cookie'' = c' # rest' \<and> prefix c c')"
      using writtenAll_first_cookie [OF h, of _ _ wr] by blast
    have 6: "URL (writtenAll wr req) =
                (if queryPairs wr = [] then URL req
                 else map_option
                        (\<lambda>u. u\<lparr>RawQuery := Values_Encode (URL_Query u @ queryPairs wr)\<rparr>) (URL req))"
      by (rule writtenAll_URL)
    have 7: "\<forall>k. map_option (\<lambda>u. queryValues u k) (URL (writtenAll wr req)) =
                   map_option (\<lambda>u. queryValues u k @ queryWrites wr k) (URL req)"
      by (simp add: writtenAll_queryValues)
    show ?C
      by (intro conjI 1 2 3 4 5 6 7 writtenAll_frame)
  qed
qed

theorem AddContextData_appends_witness:
  "carrier outboundRequest = Some testTriples \<and>
   Header outboundRequest =
     Some ((\<lambda>k. [])(''X-New-Header'' := [''old''], ''Cookie'' := [''a=1'', ''b=2''])) \<and>
   URL outboundRequest \<noteq> None \<and>
   AddContextData outboundRequest = Return (None, writtenAll testTriples outboundRequest) \<and>
   writtenAll testTriples outboundRequest = outboundAfter \<and>
   headerWrites testTriples ''X-New-Header'' = [''header-value''] \<and>
   map_option (\<lambda>h. h ''X-New-Header'') (Header outboundAfter) =
     Some ([''old''] @ [''header-value'']) \<and>
   queryWrites testTriples ''new-query'' = [''query-value''] \<and>
   map_option (\<lambda>u. queryValues u ''new-query'') (URL outboundAfter) =
     Some ([''old''] @ [''query-value'']) \<and>
   map_option (\<lambda>h. h ''Cookie'') (Header outboundAfter) = Some [''a=1; new-cookie=cookie-value''] \<and>
   prefix ''a=1'' ''a=1; new-cookie=cookie-value'' \<and>
   Method outboundAfter = Method outboundRequest"
proof -
  let ?m = "(\<lambda>k. [])(''X-New-Header'' := [''old''], ''Cookie'' := [''a=1'', ''b=2''])"
  have h: "Header outboundRequest = Some ?m"
    by (simp add: outboundRequest_def)
  have u: "URL outboundRequest \<noteq> None"
    by (simp add: outboundRequest_def)
  have hyp: "Header outboundRequest = Some ?m \<and>
             testTriples = (if URL outboundRequest = None
                            then takeWhile (\<lambda>v. location v \<noteq> LocationQueryParam) testTriples
                            else testTriples)"
    by (simp add: outboundRequest_def)
  have res: "AddContextData outboundRequest =
               Return (None, writtenAll testTriples outboundRequest)"
    using AddContextData_appends [OF carrier_outboundRequest, where m = ?m and wr = testTriples,
        THEN conjunct2, THEN mp, OF hyp, THEN conjunct1] u
    by simp
  have w: "headerWrites testTriples ''X-New-Header'' = [''header-value'']"
    "queryWrites testTriples ''new-query'' = [''query-value'']"
    by (simp_all add: headerWrites_def queryWrites_def testTriples_def canon_x_new_header
        Location_distinct)
  have a: "map_option (\<lambda>h. h ''X-New-Header'') (Header outboundAfter) =
             Some ([''old''] @ [''header-value''])"
    "map_option (\<lambda>u. queryValues u ''new-query'') (URL outboundAfter) =
             Some ([''old''] @ [''query-value''])"
    "map_option (\<lambda>h. h ''Cookie'') (Header outboundAfter) = Some [''a=1; new-cookie=cookie-value'']"
    "Method outboundAfter = Method outboundRequest"
    by (simp_all add: outboundAfter_def outboundRequest_def queryValues_def URL_Query_def
        List.map_filter_def)
  show ?thesis
    using h u res w a by (simp add: carrier_outboundRequest outboundAfter_eq)
qed

text \<open>
  C6. Once the standard constructor has built the request, \<^verbatim>\<open>NewRequestWithContext\<close>
  returns that request, unchanged, when its context holds no carrier, as for a context
  in which the package's key has no value and for \<^verbatim>\<open>context.Background()\<close>: the
  \<^verbatim>\<open>ErrMissingContext\<close> of \<^verbatim>\<open>AddContextData\<close> is swallowed.
  Any other error of \<^verbatim>\<open>AddContextData\<close> is returned to the caller, and without an error
  the request with the triples written is returned. An error of the constructor is
  returned as it is.
\<close>

theorem NewRequestWithContext_swallows_missing_context:
  assumes "http_New c m u b = Inr req"
  shows "(carrier req = None \<longrightarrow> NewRequestWithContext http_New c m u b = Return (Inr req)) \<and>
         (ctx req = c \<and> Context_Value c (ctxDataName ''httptrack'') = None \<longrightarrow>
            NewRequestWithContext http_New c m u b = Return (Inr req)) \<and>
         (ctx req = c \<and> c = Background \<longrightarrow>
            NewRequestWithContext http_New c m u b = Return (Inr req)) \<and>
         (\<forall>req'. AddContextData req = Return (Some ErrMissingContext, req') \<longrightarrow>
            NewRequestWithContext http_New c m u b = Return (Inr req') \<and> req' = req) \<and>
         (\<forall>err req'. AddContextData req = Return (Some err, req') \<and> err \<noteq> ErrMissingContext \<longrightarrow>
            NewRequestWithContext http_New c m u b = Return (Inl err)) \<and>
         (\<forall>req'. AddContextData req = Return (None, req') \<longrightarrow>
            NewRequestWithContext http_New c m u b = Return (Inr req')) \<and>
         (AddContextData req = Panic \<longrightarrow> NewRequestWithContext http_New c m u b = Panic) \<and>
         (\<forall>e m' u' b'. http_New c m' u' b' = Inl e \<longrightarrow>
            NewRequestWithContext http_New c m' u' b' = Return (Inl e))"
proof (intro conjI allI impI)
  note res = NewRequestWithContext_result [of http_New c m u b req, OF assms]
  assume "carrier req = None"
  then show "NewRequestWithContext http_New c m u b = Return (Inr req)"
    using res by (simp add: AddContextData_no_carrier)
next
  note res = NewRequestWithContext_result [of http_New c m u b req, OF assms]
  assume "ctx req = c \<and> Context_Value c (ctxDataName ''httptrack'') = None"
  then have "carrier req = None" by (simp add: carrier_def)
  then show "NewRequestWithContext http_New c m u b = Return (Inr req)"
    using res by (simp add: AddContextData_no_carrier)
next
  note res = NewRequestWithContext_result [of http_New c m u b req, OF assms]
  assume "ctx req = c \<and> c = Background"
  then have "carrier req = None" by (simp add: carrier_def)
  then show "NewRequestWithContext http_New c m u b = Return (Inr req)"
    using res by (simp add: AddContextData_no_carrier)
next
  note res = NewRequestWithContext_result [of http_New c m u b req, OF assms]
  fix req' assume a: "AddContextData req = Return (Some ErrMissingContext, req')"
  then show "NewRequestWithContext http_New c m u b = Return (Inr req')"
    using res by simp
  show "req' = req"
    using AddContextData_missing_same [OF a] by simp
next
  note res = NewRequestWithContext_result [of http_New c m u b req, OF assms]
  fix err req'
  assume "AddContextData req = Return (Some err, req') \<and> err \<noteq> ErrMissingContext"
  then show "NewRequestWithContext http_New c m u b = Return (Inl err)"
    using res by simp
next
  note res = NewRequestWithContext_result [of http_New c m u b req, OF assms]
  fix req' assume "AddContextData req = Return (None, req')"
  then show "NewRequestWithContext http_New c m u b = Return (Inr req')"
    using res by simp
next
  note res = NewRequestWithContext_result [of http_New c m u b req, OF assms]
  assume "AddContextData req = Panic"
  then show "NewRequestWithContext http_New c m u b = Panic"
    using res by simp
next
  fix e m' u' b' assume "http_New c m' u' b' = Inl e"
  then show "NewRequestWithContext http_New c m' u' b' = Return (Inl e)"
    by (rule NewRequestWithContext_failed)
qed

theorem NewRequestWithContext_swallows_missing_context_witness:
  "http_NewRequest Background ''GET'' ''/'' () = Inr plainRequest \<and>
   ctx plainRequest = Background \<and>
   AddContextData plainRequest = Return (Some ErrMissingContext, plainRequest) \<and>
   NewRequestWithContext http_NewRequest Background ''GET'' ''/'' () = Return (Inr plainRequest)"
  using NewRequestWithContext_swallows_missing_context
      [of http_NewRequest Background "''GET''" "''/''" "()" plainRequest, OF http_NewRequest_plain]
    http_NewRequest_plain AddContextData_no_carrier [OF carrier_plainRequest]
  by (simp add: plainRequest_def)

text \<open>
  C7 as stated does not hold. A request made without a constructor has a nil \<^verbatim>\<open>Header\<close> map
  as well as no URL. The carrier has a header triple before its query-parameter triple,
  so \<^verbatim>\<open>AddContextData\<close> panics in \<^verbatim>\<open>Header.Add\<close> and returns no error.
\<close>

theorem AddContextData_no_URL_panics:
  "carrier bareRequest = Some testTriples \<and>
   URL bareRequest = None \<and>
   testTriples ! 1 \<in> set testTriples \<and>
   location (testTriples ! 1) = LocationQueryParam \<and>
   AddContextData bareRequest = Panic"
  by (simp add: carrier_bareRequest AddContextData_bareRequest)
     (simp add: bareRequest_def testTriples_def)

text \<open>
  C7, amended. When the carrier has a triple for a query parameter, the request has no
  URL, and the loop gets to the first such triple, which it does when the \<^verbatim>\<open>Header\<close> map
  is not nil or no header or cookie triple comes before that triple, \<^verbatim>\<open>AddContextData\<close>
  returns the error "request has no URL set", with the triples before it written. The
  error is not \<^verbatim>\<open>ErrMissingContext\<close>, so the test of line 148 does not swallow it. But
  on a request that has a URL and a \<^verbatim>\<open>Header\<close> map, as the standard constructor builds
  it, \<^verbatim>\<open>AddContextData\<close> returns nil or \<^verbatim>\<open>ErrMissingContext\<close> only, and
  \<^verbatim>\<open>NewRequestWithContext\<close> returns the request: the error comes to those only who
  call \<^verbatim>\<open>AddContextData\<close> on a request of their own.
\<close>

theorem AddContextData_no_URL_error:
  assumes "carrier req = Some vals" and "URL req = None"
    and "v \<in> set vals" and "location v = LocationQueryParam"
    and "Header req \<noteq> None \<or>
      (\<forall>x \<in> set (takeWhile (\<lambda>x. location x \<noteq> LocationQueryParam) vals).
         location x \<noteq> LocationHeader \<and> location x \<noteq> LocationCookie)"
  shows "AddContextData req =
           Return (Some (errors_New ''request has no URL set''),
                   writtenAll (takeWhile (\<lambda>x. location x \<noteq> LocationQueryParam) vals) req) \<and>
         \<not> errors_Is (errors_New ''request has no URL set'') ErrMissingContext \<and>
         (\<forall>rq :: Request. URL rq \<noteq> None \<and> Header rq \<noteq> None \<longrightarrow>
            AddContextData rq =
              (case carrier rq of None \<Rightarrow> Return (Some ErrMissingContext, rq)
               | Some vs \<Rightarrow> Return (None, writtenAll vs rq))) \<and>
         (\<forall>(http_New :: Context \<Rightarrow> string \<Rightarrow> string \<Rightarrow> 'b \<Rightarrow> error + Request) c m u b rq.
            http_New c m u b = Inr rq \<and> URL rq \<noteq> None \<and> Header rq \<noteq> None \<longrightarrow>
            NewRequestWithContext http_New c m u b =
              Return (Inr (case carrier rq of None \<Rightarrow> rq | Some vs \<Rightarrow> writtenAll vs rq)))"
proof (intro conjI allI impI)
  obtain q where q: "find (stopsAt req) vals = Some q" "location q = LocationQueryParam"
    using no_URL_reached(1) [OF assms(2-5)] by blast
  show "AddContextData req =
           Return (Some (errors_New ''request has no URL set''),
                   writtenAll (takeWhile (\<lambda>x. location x \<noteq> LocationQueryParam) vals) req)"
    using q assms(1) by (simp add: AddContextData_eq no_URL_reached(2) [OF assms(2-5)])
next
  show "\<not> errors_Is (errors_New ''request has no URL set'') ErrMissingContext"
    by (simp add: errors_Is_def)
next
  fix rq :: Request assume "URL rq \<noteq> None \<and> Header rq \<noteq> None"
  then show "AddContextData rq =
              (case carrier rq of None \<Rightarrow> Return (Some ErrMissingContext, rq)
               | Some vs \<Rightarrow> Return (None, writtenAll vs rq))"
    by (intro AddContextData_complete) simp_all
next
  fix http_New :: "Context \<Rightarrow> string \<Rightarrow> string \<Rightarrow> 'b \<Rightarrow> error + Request" and c m u b rq
  assume a: "http_New c m u b = Inr rq \<and> URL rq \<noteq> None \<and> Header rq \<noteq> None"
  then have "AddContextData rq =
              (case carrier rq of None \<Rightarrow> Return (Some ErrMissingContext, rq)
               | Some vs \<Rightarrow> Return (None, writtenAll vs rq))"
    by (intro AddContextData_complete) simp_all
  then show "NewRequestWithContext http_New c m u b =
              Return (Inr (case carrier rq of None \<Rightarrow> rq | Some vs \<Rightarrow> writtenAll vs rq))"
    using a NewRequestWithContext_result [of http_New c m u b rq]
    by (simp split: option.splits)
qed

theorem AddContextData_no_URL_error_witness:
  "carrier noURLRequest = Some cookieFirst \<and>
   URL noURLRequest = None \<and>
   cookieFirst ! 3 \<in> set cookieFirst \<and>
   location (cookieFirst ! 3) = LocationQueryParam \<and>
   Header noURLRequest \<noteq> None \<and>
   AddContextData noURLRequest = Return (Some (errors_New ''request has no URL set''), noURLAfter) \<and>
   http_NewRequest testContext ''GET'' ''/downstream'' () =
     Inr (outboundRequest\<lparr>URL := Some \<lparr>Path = ''/downstream'', RawQuery = []\<rparr>,
                          Header := Some (\<lambda>k. [])\<rparr>) \<and>
   NewRequestWithContext http_NewRequest testContext ''GET'' ''/downstream'' () =
     Return (Inr (writtenAll testTriples
       (outboundRequest\<lparr>URL := Some \<lparr>Path = ''/downstream'', RawQuery = []\<rparr>,
                        Header := Some (\<lambda>k. [])\<rparr>)))"
proof -
  let ?rq = "outboundRequest\<lparr>URL := Some \<lparr>Path = ''/downstream'', RawQuery = []\<rparr>,
                             Header := Some (\<lambda>k. [])\<rparr>"
  have u: "URL noURLRequest = None" and h: "Header noURLRequest \<noteq> None"
    by (simp_all add: noURLRequest_def)
  have m: "cookieFirst ! 3 \<in> set cookieFirst" "location (cookieFirst ! 3) = LocationQueryParam"
    by (simp_all add: cookieFirst_def)
  have reach: "Header noURLRequest \<noteq> None \<or>
      (\<forall>x \<in> set (takeWhile (\<lambda>x. location x \<noteq> LocationQueryParam) cookieFirst).
         location x \<noteq> LocationHeader \<and> location x \<noteq> LocationCookie)"
    using h by simp
  note t = AddContextData_no_URL_error [where ?'b = unit, OF carrier_noURLRequest u m reach]
  have r: "AddContextData noURLRequest =
             Return (Some (errors_New ''request has no URL set''), noURLAfter)"
    using t [THEN conjunct1] by (simp add: noURLAfter_eq)
  have n: "http_NewRequest testContext ''GET'' ''/downstream'' () = Inr ?rq"
    by (simp add: http_NewRequest_def outboundRequest_def)
  have c: "carrier ?rq = Some testTriples"
    by (simp add: carrier_def outboundRequest_def testContext_def)
  have "http_NewRequest testContext ''GET'' ''/downstream'' () = Inr ?rq \<and>
        URL ?rq \<noteq> None \<and> Header ?rq \<noteq> None"
    using n by simp
  then have "NewRequestWithContext http_NewRequest testContext ''GET'' ''/downstream'' () =
         Return (Inr (case carrier ?rq of None \<Rightarrow> ?rq | Some vs \<Rightarrow> writtenAll vs ?rq))"
    by (rule t [THEN conjunct2, THEN conjunct2, THEN conjunct2, rule_format])
  then have w: "NewRequestWithContext http_NewRequest testContext ''GET'' ''/downstream'' () =
         Return (Inr (writtenAll testTriples ?rq))"
    by (simp add: c)
  show ?thesis
    using u h m r n w by (simp add: carrier_noURLRequest)
qed

text \<open>
  C9. \<^verbatim>\<open>AddContextData\<close> returns an error exactly when the context holds no carrier, or
  the loop gets to a query-parameter triple on a request without URL: the carrier is
  some triples, that triple, and the rest, and the loop stops at none of the triples
  before it (\<open>stopsAt\<close>: a query-parameter triple on a request without URL, where it
  returns the error, or a header or cookie triple on a request whose \<^verbatim>\<open>Header\<close> map is
  nil, where it panics). The error is \<^verbatim>\<open>ErrMissingContext\<close> in the first case and "request
  has no URL set" in the second. A triple whose location is none of the three is
  skipped: its iteration returns no error and leaves the request as it was, the loop
  does not stop there, and the loop does the same with and without such triples.
\<close>

theorem AddContextData_error_iff:
  "((\<exists>e req'. AddContextData req = Return (Some e, req')) \<longleftrightarrow>
      carrier req = None \<or>
      (\<exists>vals pre q post. carrier req = Some vals \<and> vals = pre @ q # post \<and>
         location q = LocationQueryParam \<and> URL req = None \<and>
         (\<forall>v \<in> set pre. \<not> stopsAt req v))) \<and>
   AddContextData req =
     (case carrier req of
        None \<Rightarrow> Return (Some ErrMissingContext, req)
      | Some vals \<Rightarrow>
          (case find (stopsAt req) vals of
             None \<Rightarrow> Return (None, writtenAll vals req)
           | Some q \<Rightarrow>
               if location q = LocationQueryParam
               then Return (Some (errors_New ''request has no URL set''),
                            writtenAll (takeWhile (\<lambda>v. \<not> stopsAt req v) vals) req)
               else Panic)) \<and>
   (\<forall>v. \<not> knownLocation v \<longrightarrow>
      AddContextData_step v req = Return (None, req) \<and> \<not> stopsAt req v \<and> written v req = req) \<and>
   (\<forall>vals. AddContextData_range vals req = AddContextData_range (filter knownLocation vals) req)"
proof (intro conjI allI impI)
  have "(\<exists>vals q. carrier req = Some vals \<and> find (stopsAt req) vals = Some q \<and>
            location q = LocationQueryParam) \<longleftrightarrow>
        (\<exists>vals pre q post. carrier req = Some vals \<and> vals = pre @ q # post \<and>
           location q = LocationQueryParam \<and> URL req = None \<and>
           (\<forall>v \<in> set pre. \<not> stopsAt req v))"
  proof
    assume "\<exists>vals q. carrier req = Some vals \<and> find (stopsAt req) vals = Some q \<and>
            location q = LocationQueryParam"
    then obtain vals q where c: "carrier req = Some vals"
      and f: "find (stopsAt req) vals = Some q" and q: "location q = LocationQueryParam"
      by blast
    obtain pre post where s: "vals = pre @ q # post" "stopsAt req q"
      "\<forall>v \<in> set pre. \<not> stopsAt req v"
      using f unfolding find_Some_split by blast
    have "URL req = None"
      using s(2) q by (auto simp: stopsAt_def Location_distinct)
    then show "\<exists>vals pre q post. carrier req = Some vals \<and> vals = pre @ q # post \<and>
           location q = LocationQueryParam \<and> URL req = None \<and>
           (\<forall>v \<in> set pre. \<not> stopsAt req v)"
      using c s q by blast
  next
    assume "\<exists>vals pre q post. carrier req = Some vals \<and> vals = pre @ q # post \<and>
           location q = LocationQueryParam \<and> URL req = None \<and>
           (\<forall>v \<in> set pre. \<not> stopsAt req v)"
    then obtain vals pre q post where c: "carrier req = Some vals"
      and s: "vals = pre @ q # post" and q: "location q = LocationQueryParam"
      and u: "URL req = None" and p: "\<forall>v \<in> set pre. \<not> stopsAt req v"
      by blast
    have "stopsAt req q"
      using q u by (simp add: stopsAt_def)
    then have "find (stopsAt req) vals = Some q"
      unfolding find_Some_split using s p by blast
    then show "\<exists>vals q. carrier req = Some vals \<and> find (stopsAt req) vals = Some q \<and>
            location q = LocationQueryParam"
      using c q by blast
  qed
  then show "(\<exists>e req'. AddContextData req = Return (Some e, req')) \<longleftrightarrow>
      carrier req = None \<or>
      (\<exists>vals pre q post. carrier req = Some vals \<and> vals = pre @ q # post \<and>
         location q = LocationQueryParam \<and> URL req = None \<and>
         (\<forall>v \<in> set pre. \<not> stopsAt req v))"
    unfolding AddContextData_error_cases by simp
next
  show "AddContextData req =
     (case carrier req of
        None \<Rightarrow> Return (Some ErrMissingContext, req)
      | Some vals \<Rightarrow>
          (case find (stopsAt req) vals of
             None \<Rightarrow> Return (None, writtenAll vals req)
           | Some q \<Rightarrow>
               if location q = LocationQueryParam
               then Return (Some (errors_New ''request has no URL set''),
                            writtenAll (takeWhile (\<lambda>v. \<not> stopsAt req v) vals) req)
               else Panic))"
    by (rule AddContextData_eq)
next
  fix v assume "\<not> knownLocation v"
  then show "AddContextData_step v req = Return (None, req)"
    by (rule AddContextData_step_unknown)
next
  fix v assume "\<not> knownLocation v"
  then show "\<not> stopsAt req v"
    by (auto simp: knownLocation_def stopsAt_def)
next
  fix v assume "\<not> knownLocation v"
  then show "written v req = req"
    by (simp add: knownLocation_def written_def)
next
  fix vals
  show "AddContextData_range vals req = AddContextData_range (filter knownLocation vals) req"
    by (rule AddContextData_range_skip)
qed

theorem AddContextData_error_iff_witness:
  "carrier plainRequest = None \<and>
   AddContextData plainRequest = Return (Some ErrMissingContext, plainRequest) \<and>
   carrier noURLRequest = Some cookieFirst \<and>
   cookieFirst = take 3 cookieFirst @ cookieFirst ! 3 # drop 4 cookieFirst \<and>
   location (cookieFirst ! 3) = LocationQueryParam \<and>
   URL noURLRequest = None \<and>
   list_all (\<lambda>v. \<not> stopsAt noURLRequest v) (take 3 cookieFirst) \<and>
   (\<exists>e req'. AddContextData noURLRequest = Return (Some e, req')) \<and>
   AddContextData noURLRequest = Return (Some (errors_New ''request has no URL set''), noURLAfter) \<and>
   \<not> knownLocation (cookieFirst ! 2) \<and>
   AddContextData_step (cookieFirst ! 2) noURLRequest = Return (None, noURLRequest) \<and>
   carrier bareRequest = Some testTriples \<and>
   stopsAt bareRequest (testTriples ! 0) \<and>
   AddContextData bareRequest = Panic"
proof -
  note t = AddContextData_error_iff [of noURLRequest]
  have s: "cookieFirst = take 3 cookieFirst @ cookieFirst ! 3 # drop 4 cookieFirst"
    "location (cookieFirst ! 3) = LocationQueryParam"
    by (simp_all add: cookieFirst_def)
  have u: "URL noURLRequest = None"
    by (simp add: noURLRequest_def)
  have p: "list_all (\<lambda>v. \<not> stopsAt noURLRequest v) (take 3 cookieFirst)"
    by (simp add: cookieFirst_def stopsAt_def noURLRequest_def LocationHeader_def
        LocationCookie_def LocationQueryParam_def)
  have "\<exists>vals pre q post. carrier noURLRequest = Some vals \<and> vals = pre @ q # post \<and>
         location q = LocationQueryParam \<and> URL noURLRequest = None \<and>
         (\<forall>v \<in> set pre. \<not> stopsAt noURLRequest v)"
    using carrier_noURLRequest s u p unfolding list_all_iff by blast
  then have e: "\<exists>e req'. AddContextData noURLRequest = Return (Some e, req')"
    using t [THEN conjunct1] by simp
  have k: "\<not> knownLocation (cookieFirst ! 2)"
    by (simp add: cookieFirst_def knownLocation_def LocationHeader_def LocationCookie_def
        LocationQueryParam_def)
  then have st: "AddContextData_step (cookieFirst ! 2) noURLRequest = Return (None, noURLRequest)"
    using t [THEN conjunct2, THEN conjunct2, THEN conjunct1] by simp
  have h: "Header noURLRequest \<noteq> None"
    by (simp add: noURLRequest_def)
  have m: "cookieFirst ! 3 \<in> set cookieFirst"
    by (simp add: cookieFirst_def)
  have f: "\<exists>q. find (stopsAt noURLRequest) cookieFirst = Some q \<and> location q = LocationQueryParam"
    using h by (intro no_URL_reached(1) [OF u m s(2)]) simp
  have tw: "takeWhile (\<lambda>x. \<not> stopsAt noURLRequest x) cookieFirst =
              takeWhile (\<lambda>x. location x \<noteq> LocationQueryParam) cookieFirst"
    using h by (intro no_URL_reached(2) [OF u m s(2)]) simp
  have r: "AddContextData noURLRequest =
             Return (Some (errors_New ''request has no URL set''), noURLAfter)"
    using f by (auto simp: AddContextData_eq carrier_noURLRequest tw noURLAfter_eq)
  have b: "stopsAt bareRequest (testTriples ! 0)"
    by (simp add: stopsAt_def bareRequest_def testTriples_def)
  show ?thesis
    using s u p e k st r b
    by (simp add: carrier_plainRequest AddContextData_no_carrier carrier_noURLRequest
        carrier_bareRequest AddContextData_bareRequest)
qed



end
